theory Spec2Isabelle
  imports Main "HOL-Library.Word"
begin

section \<open>Strings\<close>

text \<open>
  A JavaScript string is a sequence of 16-bit code units.  \<open>js\<close> turns an ASCII literal
  into such a sequence.
\<close>

type_synonym cu = "16 word"
type_synonym jsstring = "cu list"

definition js :: "string \<Rightarrow> jsstring" where
  "js s = map of_char s"

definition is_digit :: "cu \<Rightarrow> bool" where
  "is_digit c = (0x30 \<le> c \<and> c \<le> 0x39)"

definition is_upper :: "cu \<Rightarrow> bool" where
  "is_upper c = (0x41 \<le> c \<and> c \<le> 0x5A)"

definition is_lower :: "cu \<Rightarrow> bool" where
  "is_lower c = (0x61 \<le> c \<and> c \<le> 0x7A)"

definition is_alpha :: "cu \<Rightarrow> bool" where
  "is_alpha c = (is_lower c \<or> is_upper c)"

definition is_alnum :: "cu \<Rightarrow> bool" where
  "is_alnum c = (is_lower c \<or> is_upper c \<or> is_digit c)"

definition one_of :: "string \<Rightarrow> cu \<Rightarrow> bool" where
  "one_of s c = (c \<in> set (js s))"

definition to_lower :: "cu \<Rightarrow> cu" where
  "to_lower c = (if is_upper c then c + 0x20 else c)"

definition toLowerCase :: "jsstring \<Rightarrow> jsstring" where
  \<comment> \<open>Applied to hostnames only, which are ASCII: there it maps A-Z to a-z.\<close>
  "toLowerCase s = map to_lower s"

fun split_on :: "cu \<Rightarrow> jsstring \<Rightarrow> jsstring list" where
  \<comment> \<open>\<open>s.split(d)\<close> for a separator of one code unit; the result is never empty.\<close>
  "split_on d [] = [[]]"
| "split_on d (c # cs) =
     (if c = d then [] # split_on d cs
      else (case split_on d cs of [] \<Rightarrow> [[c]] | p # ps \<Rightarrow> (c # p) # ps))"

definition slice :: "jsstring \<Rightarrow> nat \<Rightarrow> nat \<Rightarrow> jsstring" where
  \<comment> \<open>\<open>s.slice(i, j)\<close> for indices that are not negative.\<close>
  "slice s i j = take (j - i) (drop i s)"

definition includes_str :: "jsstring \<Rightarrow> jsstring \<Rightarrow> bool" where
  "includes_str s pat = (\<exists>i \<in> set [0..<Suc (length s)]. take (length pat) (drop i s) = pat \<and> i + length pat \<le> length s)"

definition is_white :: "cu \<Rightarrow> bool" where
  \<comment> \<open>WhiteSpace and LineTerminator of ECMAScript, what \<open>trim\<close> removes.\<close>
  "is_white c = (c \<in> set [0x09, 0x0A, 0x0B, 0x0C, 0x0D, 0x20, 0xA0, 0x1680, 0x2028, 0x2029,
                           0x202F, 0x205F, 0x3000, 0xFEFF] \<or> (0x2000 \<le> c \<and> c \<le> 0x200A))"

definition trim :: "jsstring \<Rightarrow> jsstring" where
  "trim s = rev (dropWhile is_white (rev (dropWhile is_white s)))"

definition starts_with_ci :: "jsstring \<Rightarrow> jsstring \<Rightarrow> bool" where
  \<comment> \<open>\<open>s\<close> starts with \<open>w\<close>, the case of ASCII letters ignored.\<close>
  "starts_with_ci s w = (length w \<le> length s \<and> map to_lower (take (length w) s) = map to_lower w)"

definition ends_with :: "jsstring \<Rightarrow> jsstring \<Rightarrow> bool" where
  "ends_with s w = (length w \<le> length s \<and> drop (length s - length w) s = w)"

definition replace_first :: "jsstring \<Rightarrow> jsstring \<Rightarrow> jsstring \<Rightarrow> jsstring" where
  \<comment> \<open>\<open>s.replace(pat, by)\<close> with a string pattern: the first occurrence only.\<close>
  "replace_first pat by s =
     (case filter (\<lambda>i. take (length pat) (drop i s) = pat) [0..<Suc (length s - length pat)] of
        [] \<Rightarrow> s
      | i # _ \<Rightarrow> if length pat \<le> length s then take i s @ by @ drop (i + length pat) s else s)"

section \<open>Regular expressions\<close>

text \<open>
  The regular expressions of the code are matched the way ECMAScript matches them: by
  backtracking, the first alternative first, repetitions greedy.  A position in the
  subject is the pair of what lies before it, nearest code unit first, and what lies
  after it.  \<open>m r k z\<close> matches \<open>r\<close> at \<open>z\<close> and hands every position where \<open>r\<close> can
  end to the continuation \<open>k\<close>, in the matcher's order, until \<open>k\<close> succeeds.
\<close>

type_synonym pos = "jsstring \<times> jsstring"

datatype rx =
    Cls "cu \<Rightarrow> bool"
  | Eps
  | Seq rx rx
  | Alt rx rx
  | Rep nat "nat option" rx
  | WordB
  | NotBehind "cu \<Rightarrow> bool"
  | Bol
  | Eol

text \<open>
  \<open>rep\<close> is RepeatMatcher: \<open>lo\<close> iterations are owed and at most \<open>n\<close> more are allowed;
  once none is owed, an iteration that consumes nothing is refused.
\<close>

fun rep :: "((pos \<Rightarrow> 'a option) \<Rightarrow> pos \<Rightarrow> 'a option) \<Rightarrow> nat \<Rightarrow> nat \<Rightarrow>
            (pos \<Rightarrow> 'a option) \<Rightarrow> pos \<Rightarrow> 'a option" where
  "rep mr lo 0 k z = (if lo = 0 then k z else None)"
| "rep mr lo (Suc n) k z =
     (case mr (\<lambda>z'. if lo = 0 \<and> length (snd z') = length (snd z) then None
                     else rep mr (lo - 1) n k z') z of
        Some x \<Rightarrow> Some x
      | None \<Rightarrow> if lo = 0 then k z else None)"

definition is_word :: "cu \<Rightarrow> bool" where
  "is_word c = (is_alnum c \<or> c = 0x5F)"

definition at_boundary :: "pos \<Rightarrow> bool" where
  "at_boundary z =
     ((case fst z of [] \<Rightarrow> False | c # _ \<Rightarrow> is_word c)
        \<noteq> (case snd z of [] \<Rightarrow> False | c # _ \<Rightarrow> is_word c))"

primrec m :: "rx \<Rightarrow> (pos \<Rightarrow> 'a option) \<Rightarrow> pos \<Rightarrow> 'a option" where
  "m (Cls p) k z = (case snd z of [] \<Rightarrow> None | c # r \<Rightarrow> if p c then k (c # fst z, r) else None)"
| "m Eps k z = k z"
| "m (Seq r1 r2) k z = m r1 (m r2 k) z"
| "m (Alt r1 r2) k z = (case m r1 k z of Some x \<Rightarrow> Some x | None \<Rightarrow> m r2 k z)"
| "m (Rep lo hi r) k z =
     rep (m r) lo (case hi of Some h \<Rightarrow> h | None \<Rightarrow> lo + length (snd z)) k z"
| "m WordB k z = (if at_boundary z then k z else None)"
| "m (NotBehind p) k z = (case fst z of [] \<Rightarrow> k z | c # _ \<Rightarrow> if p c then None else k z)"
| "m Bol k z = (if fst z = [] then k z else None)"
| "m Eol k z = (if snd z = [] then k z else None)"

text \<open>The leftmost match at or after a position: where it starts and where it ends.\<close>

fun scan :: "rx \<Rightarrow> jsstring \<Rightarrow> jsstring \<Rightarrow> (pos \<times> pos) option" where
  "scan r b [] = (case m r Some (b, []) of None \<Rightarrow> None | Some e \<Rightarrow> Some ((b, []), e))"
| "scan r b (c # cs) =
     (case m r Some (b, c # cs) of None \<Rightarrow> scan r (c # b) cs | Some e \<Rightarrow> Some ((b, c # cs), e))"

definition exec :: "rx \<Rightarrow> jsstring \<Rightarrow> nat \<Rightarrow> (nat \<times> jsstring) option" where
  \<comment> \<open>\<open>r.exec(text)\<close> of a global regex whose \<open>lastIndex\<close> is the third argument:
      \<open>match.index\<close> and \<open>match[0]\<close>.  The new \<open>lastIndex\<close> is the end of the match,
      and 0 when there is none.\<close>
  "exec r text lastIndex =
     (if length text < lastIndex then None
      else case scan r (rev (take lastIndex text)) (drop lastIndex text) of
             None \<Rightarrow> None
           | Some (s, e) \<Rightarrow> Some (length (fst s), take (length (snd s) - length (snd e)) (snd s)))"

definition test :: "rx \<Rightarrow> jsstring \<Rightarrow> bool" where
  \<comment> \<open>\<open>r.test(text)\<close> of a regex without the \<open>g\<close> flag.\<close>
  "test r text = (scan r [] text \<noteq> None)"

text \<open>
  \<open>adv z n z'\<close>: position \<open>z'\<close> lies at least \<open>n\<close> code units after \<open>z\<close> in the same
  subject.  \<open>minlen r\<close> is a number of code units that every match of \<open>r\<close> consumes.
\<close>

definition adv :: "pos \<Rightarrow> nat \<Rightarrow> pos \<Rightarrow> bool" where
  "adv z n z' = (\<exists>pre. snd z = pre @ snd z' \<and> fst z' = rev pre @ fst z \<and> n \<le> length pre)"

primrec minlen :: "rx \<Rightarrow> nat" where
  "minlen (Cls p) = 1"
| "minlen Eps = 0"
| "minlen (Seq r1 r2) = minlen r1 + minlen r2"
| "minlen (Alt r1 r2) = min (minlen r1) (minlen r2)"
| "minlen (Rep lo hi r) = lo * minlen r"
| "minlen WordB = 0"
| "minlen (NotBehind p) = 0"
| "minlen Bol = 0"
| "minlen Eol = 0"



definition seqs :: "rx list \<Rightarrow> rx" where
  "seqs rs = foldr Seq rs Eps"

definition alts :: "rx list \<Rightarrow> rx" where
  "alts rs = foldr Alt rs (Cls (\<lambda>_. False))"

definition ci :: "char \<Rightarrow> cu \<Rightarrow> bool" where
  \<comment> \<open>A literal character under the \<open>i\<close> flag.\<close>
  "ci a c = (to_lower c = to_lower (of_char a))"

definition lit :: "string \<Rightarrow> rx" where
  "lit s = seqs (map (\<lambda>a. Cls (ci a)) s)"

definition rx_opt :: "rx \<Rightarrow> rx" where
  "rx_opt r = Rep 0 (Some 1) r"

definition rx_star :: "rx \<Rightarrow> rx" where
  "rx_star r = Rep 0 None r"

definition rx_plus :: "rx \<Rightarrow> rx" where
  "rx_plus r = Rep 1 None r"

section \<open>Constants of content.js\<close>

definition url_tail :: "cu \<Rightarrow> bool" where
  \<comment> \<open>\<open>[-a-zA-Z0-9@:%_+.~#?&/=()]\<close>\<close>
  "url_tail c = (is_alnum c \<or> one_of ''-@:%_+.~#?&/=()'' c)"

definition URL_REGEX :: rx where
  "URL_REGEX = Alt
     (seqs [Alt (seqs [lit ''http'', rx_opt (lit ''s''), lit ''://'', rx_opt (lit ''www.'')])
                (lit ''www.''),
            Cls is_alnum,
            Rep 0 (Some 255) (Cls (\<lambda>c. is_alnum c \<or> one_of ''-@:%._+~#='' c)),
            lit ''.'',
            Rep 2 (Some 63) (Cls is_alpha),
            WordB,
            rx_star (Cls url_tail)])
     (seqs [NotBehind (\<lambda>c. is_alnum c \<or> one_of ''@.'' c),
            rx_plus (seqs [Cls is_alnum, rx_star (Cls (\<lambda>c. is_alnum c \<or> one_of ''-'' c)), lit ''.'']),
            alts (map lit [''com'', ''org'', ''net'', ''edu'', ''gov'', ''co'', ''io'', ''ai'', ''app'',
              ''dev'', ''me'', ''info'', ''biz'', ''xyz'', ''online'', ''site'', ''tech'', ''store'',
              ''blog'', ''shop'', ''club'', ''live'', ''news'', ''social'', ''link'', ''page'', ''web'',
              ''cloud'', ''space'', ''world'', ''pro'', ''gg'', ''tv'', ''be'']),
            WordB,
            rx_opt (seqs [Cls (one_of ''/?#''), rx_star (Cls url_tail)])])"

definition file_extensions :: "string list" where
  "file_extensions = [''js'', ''css'', ''png'', ''jpg'', ''jpeg'', ''gif'', ''svg'', ''webp'', ''ico'',
     ''woff'', ''woff2'', ''ttf'', ''eot'', ''map'']"

definition FILE_EXTENSIONS :: rx where
  \<comment> \<open>\<open>/\.(js|css|png|jpg|jpeg|gif|svg|webp|ico|woff|woff2|ttf|eot|map)$/i\<close>\<close>
  "FILE_EXTENSIONS = seqs [lit ''.'', alts (map lit file_extensions), Eol]"

definition VALID_TLDS :: "jsstring list" where
  "VALID_TLDS = map js
     [''com'', ''org'', ''net'', ''edu'', ''gov'', ''co'', ''io'', ''ai'', ''app'', ''dev'',
      ''me'', ''info'', ''biz'', ''us'', ''uk'', ''ca'', ''au'', ''de'', ''fr'', ''it'',
      ''es'', ''nl'', ''ru'', ''jp'', ''cn'', ''in'', ''br'', ''mx'', ''kr'', ''tv'',
      ''xyz'', ''online'', ''site'', ''tech'', ''store'', ''blog'', ''shop'', ''club'', ''live'', ''news'',
      ''social'', ''link'', ''page'', ''web'', ''cloud'', ''space'', ''world'', ''pro'', ''gg'', ''be'']"

record settings =
  enabled :: bool
  openInNewTab :: bool
  showPreview :: bool
  highlightLinks :: bool
  linkStyle :: jsstring
  trackHistory :: bool

definition initial_settings :: settings where
  "initial_settings = \<lparr>enabled = True, openInNewTab = True, showPreview = True,
     highlightLinks = True, linkStyle = js ''default'', trackHistory = False\<rparr>"

section \<open>The platform's URL parser\<close>

text \<open>
  \<open>new URL(s)\<close> is the browser's, not the repository's.  The code reads three fields of
  the object it returns; a parser is a function that returns them, or \<open>None\<close> where the
  constructor throws a \<open>TypeError\<close>.  Every function that calls \<open>new URL\<close> takes the
  parser as its first argument.
\<close>

record url =
  protocol :: jsstring
  hostname :: jsstring
  href :: jsstring

type_synonym url_parser = "jsstring \<Rightarrow> url option"

section \<open>A model of the URL constructor\<close>

text \<open>
  \<open>whatwg\<close> follows the basic URL parser of the URL Standard, called without a base
  URL, on the inputs listed here; on every other input it answers \<open>Unmodelled\<close>.
  \<^item> All code units are ASCII.
  \<^item> The scheme is \<open>http\<close>, \<open>https\<close>, \<open>ws\<close>, \<open>wss\<close> or \<open>ftp\<close>, and the host is a domain or
    an IPv4 address: it does not start with \<open>[\<close>, contains no \<open>%\<close>, and none of its labels
    starts with \<open>xn--\<close>.  On ASCII input free of such labels, domain-to-ASCII is lower-casing.
  \<^item> Or the scheme is none of these and not \<open>file\<close>, and what follows the colon does not
    start with a slash and contains neither a control, a space nor U+007F: the path is
    opaque and there is no host.
  \<open>URL_std\<close> is the parser that the closed theorems below are evaluated with.  It
  answers where \<open>whatwg\<close> does; on the other inputs nothing is said about it.
\<close>

datatype parse_result = Parsed url | TypeError | Unmodelled

definition strip_c0_space :: "jsstring \<Rightarrow> jsstring" where
  "strip_c0_space s = rev (dropWhile (\<lambda>c. c \<le> 0x20) (rev (dropWhile (\<lambda>c. c \<le> 0x20) s)))"

definition remove_tab_newline :: "jsstring \<Rightarrow> jsstring" where
  "remove_tab_newline s = filter (\<lambda>c. c \<notin> set [0x09, 0x0A, 0x0D]) s"

definition hex_digit :: "nat \<Rightarrow> cu" where
  "hex_digit n = (if n < 10 then 0x30 + of_nat n else 0x37 + of_nat n)"

definition percent_encode :: "(cu \<Rightarrow> bool) \<Rightarrow> jsstring \<Rightarrow> jsstring" where
  \<comment> \<open>For ASCII input, where every code unit is one byte of UTF-8.\<close>
  "percent_encode enc s = concat (map (\<lambda>c.
       if enc c then [0x25, hex_digit (unat c div 16), hex_digit (unat c mod 16)] else [c]) s)"

definition c0_control_set :: "cu \<Rightarrow> bool" where
  "c0_control_set c = (c \<le> 0x1F \<or> 0x7E < c)"

definition fragment_set :: "cu \<Rightarrow> bool" where
  "fragment_set c = (c0_control_set c \<or> c \<in> set [0x20, 0x22, 0x3C, 0x3E, 0x60])"

definition query_set :: "cu \<Rightarrow> bool" where
  "query_set c = (c0_control_set c \<or> c \<in> set [0x20, 0x22, 0x23, 0x3C, 0x3E])"

definition special_query_set :: "cu \<Rightarrow> bool" where
  "special_query_set c = (query_set c \<or> c = 0x27)"

definition path_set :: "cu \<Rightarrow> bool" where
  "path_set c = (query_set c \<or> c \<in> set [0x3F, 0x5E, 0x60, 0x7B, 0x7D])"

definition userinfo_set :: "cu \<Rightarrow> bool" where
  "userinfo_set c = (path_set c \<or> c \<in> set [0x2F, 0x3A, 0x3B, 0x3D, 0x40, 0x5B, 0x5C, 0x5D, 0x7C])"

definition split_scheme :: "jsstring \<Rightarrow> (jsstring \<times> jsstring) option" where
  "split_scheme s =
     (case s of
        [] \<Rightarrow> None
      | c # _ \<Rightarrow>
          if \<not> is_alpha c then None
          else (case dropWhile (\<lambda>c. is_alnum c \<or> one_of ''+-.'' c) s of
                  [] \<Rightarrow> None
                | d # rest \<Rightarrow>
                    if d = 0x3A
                    then Some (map to_lower (takeWhile (\<lambda>c. is_alnum c \<or> one_of ''+-.'' c) s), rest)
                    else None))"

definition default_port :: "jsstring \<Rightarrow> nat option" where
  "default_port scheme =
     (if scheme = js ''ftp'' then Some 21
      else if scheme = js ''http'' \<or> scheme = js ''ws'' then Some 80
      else if scheme = js ''https'' \<or> scheme = js ''wss'' then Some 443
      else None)"

fun decimal :: "nat \<Rightarrow> jsstring" where
  "decimal n = (if n < 10 then [0x30 + of_nat n] else decimal (n div 10) @ [0x30 + of_nat (n mod 10)])"

declare decimal.simps [simp del]

definition digit_value :: "cu \<Rightarrow> nat" where
  "digit_value c =
     (if is_digit c then unat c - 0x30
      else if is_upper c then unat c - 0x37
      else unat c - 0x57)"

definition number_in :: "nat \<Rightarrow> jsstring \<Rightarrow> nat" where
  "number_in radix s = foldl (\<lambda>n c. n * radix + digit_value c) 0 s"

definition is_radix_digit :: "nat \<Rightarrow> cu \<Rightarrow> bool" where
  "is_radix_digit radix c =
     (if radix = 16 then is_digit c \<or> one_of ''abcdefABCDEF'' c
      else if radix = 8 then 0x30 \<le> c \<and> c \<le> 0x37
      else is_digit c)"

definition ipv4_number :: "jsstring \<Rightarrow> nat option" where
  "ipv4_number s =
     (if s = [] then None
      else
        let (radix, s') =
              (if 2 \<le> length s \<and> (take 2 s = js ''0x'' \<or> take 2 s = js ''0X'') then (16, drop 2 s)
               else if 2 \<le> length s \<and> hd s = 0x30 then (8, tl s)
               else (10, s))
        in if s' = [] then Some 0
           else if \<exists>c \<in> set s'. \<not> is_radix_digit radix c then None
           else Some (number_in radix s'))"

definition ends_in_a_number :: "jsstring \<Rightarrow> bool" where
  "ends_in_a_number domain =
     (let parts = split_on 0x2E domain
      in if last parts = [] \<and> length parts = 1 then False
         else
           let parts' = (if last parts = [] then butlast parts else parts);
               l = last parts'
           in (l \<noteq> [] \<and> (\<forall>c \<in> set l. is_digit c)) \<or> ipv4_number l \<noteq> None)"

definition ipv4_parser :: "jsstring \<Rightarrow> jsstring option" where
  "ipv4_parser domain =
     (let parts = split_on 0x2E domain;
          parts' = (if last parts = [] \<and> 1 < length parts then butlast parts else parts)
      in if 4 < length parts' then None
         else
           let numbers = map ipv4_number parts'
           in if None \<in> set numbers then None
              else
                let ns = map the numbers
                in if \<exists>n \<in> set (butlast ns). 255 < n then None
                   else if 256 ^ (5 - length ns) \<le> last ns then None
                   else
                     let ipv4 = last ns + sum_list (map (\<lambda>(n, i). n * 256 ^ (3 - i))
                                   (zip (butlast ns) [0..<length ns - 1]))
                     in Some (decimal (ipv4 div 256 ^ 3) @ js ''.'' @ decimal (ipv4 div 256 ^ 2 mod 256)
                          @ js ''.'' @ decimal (ipv4 div 256 mod 256) @ js ''.'' @ decimal (ipv4 mod 256)))"

definition forbidden_host_code_point :: "cu \<Rightarrow> bool" where
  "forbidden_host_code_point c =
     (c \<in> set [0x00, 0x09, 0x0A, 0x0D, 0x20, 0x23, 0x2F, 0x3A, 0x3C, 0x3E, 0x3F, 0x40,
                0x5B, 0x5C, 0x5D, 0x5E, 0x7C])"

definition forbidden_domain_code_point :: "cu \<Rightarrow> bool" where
  "forbidden_domain_code_point c =
     (forbidden_host_code_point c \<or> c \<le> 0x1F \<or> c = 0x25 \<or> c = 0x7F)"

datatype 'a outcome = Ok 'a | Failure | Beyond

definition host_parser :: "jsstring \<Rightarrow> jsstring outcome" where
  "host_parser input =
     (if hd input = 0x5B then Beyond
      else if 0x25 \<in> set input then Beyond
      else if \<exists>l \<in> set (split_on 0x2E input). take 4 (map to_lower l) = js ''xn--'' then Beyond
      else
        let asciiDomain = map to_lower input
        in if \<exists>c \<in> set asciiDomain. forbidden_domain_code_point c then Failure
           else if ends_in_a_number asciiDomain
           then (case ipv4_parser asciiDomain of None \<Rightarrow> Failure | Some a \<Rightarrow> Ok a)
           else Ok asciiDomain)"

fun host_state :: "bool \<Rightarrow> jsstring \<Rightarrow> jsstring \<times> jsstring" where
  "host_state insideBrackets [] = ([], [])"
| "host_state insideBrackets (c # cs) =
     (if c = 0x3A \<and> \<not> insideBrackets then ([], c # cs)
      else
        let (buffer, rest) =
              host_state (if c = 0x5B then True else if c = 0x5D then False else insideBrackets) cs
        in (c # buffer, rest))"

definition port_state :: "jsstring \<Rightarrow> jsstring \<Rightarrow> nat option outcome" where
  "port_state scheme rest =
     (case rest of
        [] \<Rightarrow> Ok None
      | _ # buffer \<Rightarrow>
          if \<exists>c \<in> set buffer. \<not> is_digit c then Failure
          else if buffer = [] then Ok None
          else if 65535 < number_in 10 buffer then Failure
          else if default_port scheme = Some (number_in 10 buffer) then Ok None
          else Ok (Some (number_in 10 buffer)))"

definition is_single_dot :: "jsstring \<Rightarrow> bool" where
  "is_single_dot buffer = (map to_lower buffer \<in> set [js ''.'', js ''%2e''])"

definition is_double_dot :: "jsstring \<Rightarrow> bool" where
  "is_double_dot buffer =
     (map to_lower buffer \<in> set [js ''..'', js ''.%2e'', js ''%2e.'', js ''%2e%2e''])"

fun path_state :: "jsstring \<Rightarrow> jsstring \<Rightarrow> jsstring list \<Rightarrow> jsstring list \<times> jsstring" where
  "path_state [] buffer path =
     (if is_double_dot buffer then butlast path @ [[]]
      else if is_single_dot buffer then path @ [[]]
      else path @ [buffer], [])"
| "path_state (c # cs) buffer path =
     (if c = 0x3F \<or> c = 0x23 then
        (if is_double_dot buffer then butlast path @ [[]]
         else if is_single_dot buffer then path @ [[]]
         else path @ [buffer], c # cs)
      else if c = 0x2F \<or> c = 0x5C then
        path_state cs []
          (if is_double_dot buffer then butlast path
           else if is_single_dot buffer then path
           else path @ [buffer])
      else path_state cs (buffer @ percent_encode path_set [c]) path)"

definition query_and_fragment :: "(cu \<Rightarrow> bool) \<Rightarrow> jsstring \<Rightarrow> jsstring" where
  "query_and_fragment query_enc rest =
     (case rest of
        [] \<Rightarrow> []
      | c # cs \<Rightarrow>
          if c = 0x3F
          then js ''?'' @ percent_encode query_enc (takeWhile (\<lambda>c. c \<noteq> 0x23) cs)
                 @ (case dropWhile (\<lambda>c. c \<noteq> 0x23) cs of
                      [] \<Rightarrow> []
                    | _ # f \<Rightarrow> js ''#'' @ percent_encode fragment_set f)
          else js ''#'' @ percent_encode fragment_set cs)"

definition special_url :: "jsstring \<Rightarrow> jsstring \<Rightarrow> parse_result" where
  "special_url scheme rest =
     (let input = dropWhile (\<lambda>c. c = 0x2F \<or> c = 0x5C) rest;
          authority = takeWhile (\<lambda>c. c \<notin> set [0x2F, 0x3F, 0x23, 0x5C]) input;
          after = dropWhile (\<lambda>c. c \<notin> set [0x2F, 0x3F, 0x23, 0x5C]) input;
          atSignSeen = (0x40 \<in> set authority);
          credentials = (if atSignSeen then rev (tl (dropWhile (\<lambda>c. c \<noteq> 0x40) (rev authority))) else []);
          hostport = (if atSignSeen then rev (takeWhile (\<lambda>c. c \<noteq> 0x40) (rev authority)) else authority);
          username = percent_encode userinfo_set (takeWhile (\<lambda>c. c \<noteq> 0x3A) credentials);
          password = percent_encode userinfo_set (drop 1 (dropWhile (\<lambda>c. c \<noteq> 0x3A) credentials));
          (buffer, portpart) = host_state False hostport
      in if buffer = [] then TypeError
         else (case host_parser buffer of
                 Beyond \<Rightarrow> Unmodelled
               | Failure \<Rightarrow> TypeError
               | Ok host \<Rightarrow>
                   (case port_state scheme portpart of
                      Beyond \<Rightarrow> Unmodelled
                    | Failure \<Rightarrow> TypeError
                    | Ok port \<Rightarrow>
                        let (path, rest') =
                              path_state (case after of [] \<Rightarrow> []
                                          | c # cs \<Rightarrow> if c = 0x2F \<or> c = 0x5C then cs else c # cs) [] []
                        in Parsed \<lparr>protocol = scheme @ js '':'', hostname = host,
                             href = scheme @ js ''://''
                               @ (if username \<noteq> [] \<or> password \<noteq> []
                                  then username @ (if password \<noteq> [] then js '':'' @ password else [])
                                         @ js ''@''
                                  else [])
                               @ host
                               @ (case port of None \<Rightarrow> [] | Some p \<Rightarrow> js '':'' @ decimal p)
                               @ concat (map (\<lambda>segment. js ''/'' @ segment) path)
                               @ query_and_fragment special_query_set rest'\<rparr>)))"

definition opaque_url :: "jsstring \<Rightarrow> jsstring \<Rightarrow> parse_result" where
  "opaque_url scheme rest =
     (if \<exists>c \<in> set rest. c \<le> 0x20 \<or> c = 0x7F then Unmodelled
      else Parsed \<lparr>protocol = scheme @ js '':'', hostname = [],
             href = scheme @ js '':'' @ takeWhile (\<lambda>c. c \<noteq> 0x3F \<and> c \<noteq> 0x23) rest
               @ query_and_fragment query_set (dropWhile (\<lambda>c. c \<noteq> 0x3F \<and> c \<noteq> 0x23) rest)\<rparr>)"

definition whatwg :: "jsstring \<Rightarrow> parse_result" where
  "whatwg input =
     (if \<exists>c \<in> set input. 0x80 \<le> c then Unmodelled
      else (case split_scheme (remove_tab_newline (strip_c0_space input)) of
              None \<Rightarrow> TypeError
            | Some (scheme, rest) \<Rightarrow>
                if scheme = js ''file'' then Unmodelled
                else if default_port scheme \<noteq> None then special_url scheme rest
                else if take 1 rest = js ''/'' then Unmodelled
                else opaque_url scheme rest))"

definition URL_std :: url_parser where
  "URL_std s = (case whatwg s of Parsed u \<Rightarrow> Some u | TypeError \<Rightarrow> None | Unmodelled \<Rightarrow> undefined)"

section \<open>Utility functions of content.js\<close>

definition HTTP_PREFIX :: rx where
  \<comment> \<open>\<open>/^https?:\/\//i\<close>\<close>
  "HTTP_PREFIX = seqs [Bol, lit ''http'', rx_opt (lit ''s''), lit ''://'']"

definition sanitizeUrl :: "url_parser \<Rightarrow> jsstring \<Rightarrow> jsstring option" where
  "sanitizeUrl P urlString =
     (let url = (if \<not> test HTTP_PREFIX urlString then js ''https://'' @ urlString else urlString)
      in case P url of
           None \<Rightarrow> None
         | Some parsed \<Rightarrow>
             if protocol parsed \<notin> set [js ''http:'', js ''https:''] then None
             else
               let host = toLowerCase (hostname parsed);
                   tld = last (split_on 0x2E host)
               in if tld \<notin> set VALID_TLDS \<and> length (split_on 0x2E host) < 2 then None
                  else Some (href parsed))"

definition escapeHtml :: "jsstring \<Rightarrow> jsstring" where
  \<comment> \<open>\<open>textContent\<close> read back as \<open>innerHTML\<close>: the serialisation of a text node.\<close>
  "escapeHtml text = concat (map (\<lambda>c.
       if c = 0x26 then js ''&amp;''
       else if c = 0xA0 then js ''&nbsp;''
       else if c = 0x3C then js ''&lt;''
       else if c = 0x3E then js ''&gt;''
       else [c]) text)"

definition isTruncatedUrl :: "jsstring \<Rightarrow> bool" where
  \<comment> \<open>The second regex is the three code units U+00E2 U+20AC U+00A6 of the source file.\<close>
  "isTruncatedUrl text =
     (test (seqs [Rep 2 None (lit ''.''), Eol]) (trim text)
      \<or> test (seqs [Cls (\<lambda>c. c = 0xE2), Cls (\<lambda>c. c = 0x20AC), Cls (\<lambda>c. c = 0xA6), Eol]) (trim text))"

definition isFileExtension :: "jsstring \<Rightarrow> bool" where
  "isFileExtension text = test FILE_EXTENSIONS text"

section \<open>Link processing (content.js)\<close>

text \<open>
  The markup of one link.  \<open>icon\<close> is what \<open>chrome.runtime.getURL('icons/icon16.png')\<close>
  returns.
\<close>

definition anchor_html :: "settings \<Rightarrow> jsstring \<Rightarrow> jsstring \<Rightarrow> jsstring \<Rightarrow> jsstring" where
  \<open>anchor_html st icon sanitizedUrl matchedUrl =
     (let target = (if openInNewTab st then js '' target="_blank"'' else []);
          styleClass = js ''instaclick-link instaclick-style-'' @ linkStyle st;
          faviconHtml = js ''<img class="instaclick-favicon" src="'' @ icon
                          @ js ''" alt="" aria-hidden="true">''
      in js ''<a href="'' @ sanitizedUrl @ js ''"'' @ target
           @ js '' rel="noopener noreferrer" class="'' @ styleClass
           @ js ''" data-instaclick-url="'' @ sanitizedUrl @ js ''">'' @ faviconHtml
           @ escapeHtml matchedUrl @ js ''</a>'')\<close>

text \<open>
  The loop of \<open>linkifyText\<close>.  \<open>ri\<close> is \<open>URL_REGEX.lastIndex\<close>, \<open>lastIndex\<close> and
  \<open>result\<close> are the local variables.  A sanitized URL that is the empty string is
  falsy and skipped like null.
\<close>

function linkify_loop :: "url_parser \<Rightarrow> settings \<Rightarrow> jsstring \<Rightarrow> jsstring \<Rightarrow> nat \<Rightarrow> nat \<Rightarrow> jsstring \<Rightarrow> jsstring" where
  "linkify_loop P st icon text ri lastIndex result =
     (case exec URL_REGEX text ri of
        None \<Rightarrow> result @ escapeHtml (drop lastIndex text)
      | Some (index, matchedUrl) \<Rightarrow>
          if isFileExtension matchedUrl \<or> isTruncatedUrl matchedUrl
          then linkify_loop P st icon text (index + length matchedUrl) lastIndex result
          else (case sanitizeUrl P matchedUrl of
                  None \<Rightarrow> linkify_loop P st icon text (index + length matchedUrl) lastIndex result
                | Some sanitizedUrl \<Rightarrow>
                    if sanitizedUrl = []
                    then linkify_loop P st icon text (index + length matchedUrl) lastIndex result
                    else linkify_loop P st icon text (index + length matchedUrl)
                           (index + length matchedUrl)
                           (result @ escapeHtml (slice text lastIndex index)
                              @ anchor_html st icon sanitizedUrl matchedUrl)))"
  by pat_completeness auto

definition linkifyText :: "url_parser \<Rightarrow> settings \<Rightarrow> jsstring \<Rightarrow> jsstring \<Rightarrow> jsstring" where
  "linkifyText P st icon text = linkify_loop P st icon text 0 0 []"

text \<open>
  The same loop, keeping the pieces apart instead of concatenating their markup: the
  plain text between links, and each link with its \<open>href\<close> and its label.
\<close>

datatype part = Plain jsstring | Anchor jsstring jsstring

fun part_text :: "part \<Rightarrow> jsstring" where
  "part_text (Plain s) = s"
| "part_text (Anchor h l) = l"


function linkify_parts :: "url_parser \<Rightarrow> jsstring \<Rightarrow> nat \<Rightarrow> nat \<Rightarrow> part list \<Rightarrow> part list" where
  "linkify_parts P text ri lastIndex result =
     (case exec URL_REGEX text ri of
        None \<Rightarrow> result @ [Plain (drop lastIndex text)]
      | Some (index, matchedUrl) \<Rightarrow>
          if isFileExtension matchedUrl \<or> isTruncatedUrl matchedUrl
          then linkify_parts P text (index + length matchedUrl) lastIndex result
          else (case sanitizeUrl P matchedUrl of
                  None \<Rightarrow> linkify_parts P text (index + length matchedUrl) lastIndex result
                | Some sanitizedUrl \<Rightarrow>
                    if sanitizedUrl = []
                    then linkify_parts P text (index + length matchedUrl) lastIndex result
                    else linkify_parts P text (index + length matchedUrl)
                           (index + length matchedUrl)
                           (result @ [Plain (slice text lastIndex index),
                                      Anchor sanitizedUrl matchedUrl])))"
  by pat_completeness auto

text \<open>
  The candidates: the successive matches that the \<open>while\<close> loop of \<open>linkifyText\<close> gets
  from \<open>URL_REGEX.exec\<close>, each with its index.  A candidate is accepted when the loop
  reaches the code that creates the link.
\<close>

function candidates :: "jsstring \<Rightarrow> nat \<Rightarrow> (nat \<times> jsstring) list" where
  "candidates text ri =
     (case exec URL_REGEX text ri of
        None \<Rightarrow> []
      | Some (index, matchedUrl) \<Rightarrow>
          (index, matchedUrl) # candidates text (index + length matchedUrl))"
  by pat_completeness auto

definition accepted :: "url_parser \<Rightarrow> jsstring \<Rightarrow> bool" where
  "accepted P matchedUrl =
     (\<not> isFileExtension matchedUrl \<and> \<not> isTruncatedUrl matchedUrl
      \<and> (case sanitizeUrl P matchedUrl of None \<Rightarrow> False | Some sanitizedUrl \<Rightarrow> sanitizedUrl \<noteq> []))"

text \<open>The links among the parts, each with the offset of its label in the text.\<close>

fun anchors_at :: "nat \<Rightarrow> part list \<Rightarrow> (nat \<times> jsstring \<times> jsstring) list" where
  "anchors_at off [] = []"
| "anchors_at off (Plain s # ps) = anchors_at (off + length s) ps"
| "anchors_at off (Anchor h l # ps) = (off, h, l) # anchors_at (off + length l) ps"

definition linkifyParts :: "url_parser \<Rightarrow> jsstring \<Rightarrow> part list" where
  "linkifyParts P text = linkify_parts P text 0 0 []"

section \<open>The platform's HTML tokenizer\<close>

text \<open>
  The markup that \<open>linkifyText\<close> returns is read by the browser.  \<open>tokenize\<close> follows the
  tokenization stage of the HTML Standard: the data state, the tag and attribute states
  and the character reference states.  Where the markup leaves what is modelled here (a
  comment, a declaration, a named character reference that ends in a semicolon and is
  not one of those listed), the token \<open>Outside\<close> ends the result.  The self-closing
  flag of a tag is not kept: it changes nothing for the elements met here.
\<close>

type_synonym attributes = "(jsstring \<times> jsstring) list"

datatype token = Character cu | StartTag jsstring attributes | EndTag jsstring | Outside

text \<open>
  The named character references that need no semicolon: the names of U+00A0 to U+00FF in
  this order, and ten more.  Each of them is also a reference when a semicolon follows.
\<close>

definition latin1_names :: "string list" where
  "latin1_names =
     [''nbsp'', ''iexcl'', ''cent'', ''pound'', ''curren'', ''yen'', ''brvbar'', ''sect'',
      ''uml'', ''copy'', ''ordf'', ''laquo'', ''not'', ''shy'', ''reg'', ''macr'',
      ''deg'', ''plusmn'', ''sup2'', ''sup3'', ''acute'', ''micro'', ''para'', ''middot'',
      ''cedil'', ''sup1'', ''ordm'', ''raquo'', ''frac14'', ''frac12'', ''frac34'', ''iquest'',
      ''Agrave'', ''Aacute'', ''Acirc'', ''Atilde'', ''Auml'', ''Aring'', ''AElig'', ''Ccedil'',
      ''Egrave'', ''Eacute'', ''Ecirc'', ''Euml'', ''Igrave'', ''Iacute'', ''Icirc'', ''Iuml'',
      ''ETH'', ''Ntilde'', ''Ograve'', ''Oacute'', ''Ocirc'', ''Otilde'', ''Ouml'', ''times'',
      ''Oslash'', ''Ugrave'', ''Uacute'', ''Ucirc'', ''Uuml'', ''Yacute'', ''THORN'', ''szlig'',
      ''agrave'', ''aacute'', ''acirc'', ''atilde'', ''auml'', ''aring'', ''aelig'', ''ccedil'',
      ''egrave'', ''eacute'', ''ecirc'', ''euml'', ''igrave'', ''iacute'', ''icirc'', ''iuml'',
      ''eth'', ''ntilde'', ''ograve'', ''oacute'', ''ocirc'', ''otilde'', ''ouml'', ''divide'',
      ''oslash'', ''ugrave'', ''uacute'', ''ucirc'', ''uuml'', ''yacute'', ''thorn'', ''yuml'']"

fun code_units_from :: "cu \<Rightarrow> 'a list \<Rightarrow> cu list" where
  "code_units_from c [] = []"
| "code_units_from c (x # xs) = c # code_units_from (c + 1) xs"

definition legacy_references :: "(jsstring \<times> cu) list" where
  "legacy_references =
     zip (map js latin1_names) (code_units_from 0xA0 latin1_names)
     @ map (\<lambda>(n, c). (js n, c))
         [(''amp'', 0x26), (''AMP'', 0x26), (''lt'', 0x3C), (''LT'', 0x3C), (''gt'', 0x3E),
          (''GT'', 0x3E), (''quot'', 0x22), (''QUOT'', 0x22), (''COPY'', 0xA9), (''REG'', 0xAE)]"

text \<open>
  A character reference, read after its \<open>&\<close>: the code units it stands for and how many
  code units of the input it takes.  A reference that is none is the \<open>&\<close> itself and
  takes nothing.  In an attribute value, a name without semicolon that is followed by a
  letter, a digit or \<open>=\<close> is no reference.
\<close>

definition named_reference :: "bool \<Rightarrow> jsstring \<Rightarrow> (jsstring \<times> nat) option" where
  "named_reference in_attribute input =
     (let run = takeWhile is_alnum input;
          next = take 1 (dropWhile is_alnum input)
      in if next = js '';''
         then (case map_of legacy_references run of
                 None \<Rightarrow> None
               | Some c \<Rightarrow> Some ([c], length run + 1))
         else (case List.map_filter (\<lambda>n. map_option (Pair n) (map_of legacy_references (take n run)))
                      (rev [1 ..< Suc (length run)]) of
                 [] \<Rightarrow> Some ([0x26], 0)
               | (n, c) # _ \<Rightarrow>
                   if in_attribute \<and> (n < length run \<or> next = js ''='') then Some ([0x26], 0)
                   else Some ([c], n)))"

definition windows_1252 :: "(int \<times> int) list" where
  "windows_1252 =
     [(0x80, 0x20AC), (0x82, 0x201A), (0x83, 0x0192), (0x84, 0x201E), (0x85, 0x2026),
      (0x86, 0x2020), (0x87, 0x2021), (0x88, 0x02C6), (0x89, 0x2030), (0x8A, 0x0160),
      (0x8B, 0x2039), (0x8C, 0x0152), (0x8E, 0x017D), (0x91, 0x2018), (0x92, 0x2019),
      (0x93, 0x201C), (0x94, 0x201D), (0x95, 0x2022), (0x96, 0x2013), (0x97, 0x2014),
      (0x98, 0x02DC), (0x99, 0x2122), (0x9A, 0x0161), (0x9B, 0x203A), (0x9C, 0x0153),
      (0x9E, 0x017E), (0x9F, 0x0178)]"

definition numeric_end :: "int \<Rightarrow> int" where
  "numeric_end code =
     (if code = 0 \<or> 0x10FFFF < code \<or> (0xD800 \<le> code \<and> code \<le> 0xDFFF) then 0xFFFD
      else (case map_of windows_1252 code of None \<Rightarrow> code | Some c \<Rightarrow> c))"

definition utf16 :: "int \<Rightarrow> jsstring" where
  "utf16 code =
     (if code < 0x10000 then [of_int code]
      else [of_int (0xD800 + (code - 0x10000) div 0x400), of_int (0xDC00 + (code - 0x10000) mod 0x400)])"

definition is_hex_digit :: "cu \<Rightarrow> bool" where
  "is_hex_digit c = (is_digit c \<or> one_of ''abcdefABCDEF'' c)"

definition code_point_in :: "int \<Rightarrow> jsstring \<Rightarrow> int" where
  "code_point_in radix s = foldl (\<lambda>n c. n * radix + int (digit_value c)) 0 s"

definition digits_then_semicolon :: "(cu \<Rightarrow> bool) \<Rightarrow> jsstring \<Rightarrow> jsstring \<times> bool" where
  \<comment> \<open>The digits that the input starts with, and whether a semicolon follows them.\<close>
  "digits_then_semicolon is_dig input =
     (takeWhile is_dig input, take 1 (drop (length (takeWhile is_dig input)) input) = js '';'')"

definition numeric_reference :: "jsstring \<Rightarrow> jsstring \<times> nat" where
  \<comment> \<open>Read after \<open>&#\<close>; what it takes counts the \<open>#\<close>.\<close>
  "numeric_reference input =
     (let hex = (take 1 input = js ''x'' \<or> take 1 input = js ''X'');
          (digits, semicolon) =
             digits_then_semicolon (if hex then is_hex_digit else is_digit)
               (if hex then drop 1 input else input)
      in if digits = [] then ([0x26], 0)
         else (utf16 (numeric_end (code_point_in (if hex then 16 else 10) digits)),
               1 + (if hex then 1 else 0) + length digits + (if semicolon then 1 else 0)))"

definition character_reference :: "bool \<Rightarrow> jsstring \<Rightarrow> (jsstring \<times> nat) option" where
  "character_reference in_attribute input =
     (case input of
        [] \<Rightarrow> Some ([0x26], 0)
      | c # cs \<Rightarrow>
          if is_alnum c then named_reference in_attribute input
          else if c = 0x23 then Some (numeric_reference cs)
          else Some ([0x26], 0))"

record tag =
  is_end :: bool
  tag_name :: jsstring
  tag_attrs :: attributes

definition add_attribute :: "jsstring \<Rightarrow> jsstring \<Rightarrow> tag \<Rightarrow> tag" where
  \<comment> \<open>An attribute whose name the tag already has is dropped.\<close>
  "add_attribute name v tg =
     (if name \<in> fst ` set (tag_attrs tg) then tg else tg\<lparr>tag_attrs := tag_attrs tg @ [(name, v)]\<rparr>)"

definition emit :: "tag \<Rightarrow> token" where
  "emit tg = (if is_end tg then EndTag (tag_name tg) else StartTag (tag_name tg) (tag_attrs tg))"

definition name_char :: "cu \<Rightarrow> cu" where
  "name_char c = (if is_upper c then c + 0x20 else if c = 0 then 0xFFFD else c)"

definition is_space :: "cu \<Rightarrow> bool" where
  "is_space c = (c \<in> set [0x09, 0x0A, 0x0C, 0x20])"

datatype quoting = DoubleQuoted | SingleQuoted | Unquoted

datatype tstate =
    Data
  | TagOpen
  | EndTagOpen
  | TagName tag
  | BeforeAttributeName tag
  | AttributeName tag jsstring
  | AfterAttributeName tag jsstring
  | BeforeAttributeValue tag jsstring
  | AttributeValue quoting tag jsstring jsstring
  | AfterAttributeValueQuoted tag
  | SelfClosingStartTag tag

fun reconsumes :: "tstate \<Rightarrow> nat" where
  \<comment> \<open>1 for the states that hand the code unit they read to another state.\<close>
  "reconsumes TagOpen = 1"
| "reconsumes (BeforeAttributeValue tg name) = 1"
| "reconsumes (AfterAttributeValueQuoted tg) = 1"
| "reconsumes (SelfClosingStartTag tg) = 1"
| "reconsumes _ = 0"

function tokenize :: "tstate \<Rightarrow> jsstring \<Rightarrow> token list" where
  "tokenize Data [] = []"
| "tokenize Data (c # cs) =
     (if c = 0x26 then
        (case character_reference False cs of
           None \<Rightarrow> [Outside]
         | Some (e, n) \<Rightarrow> map Character e @ tokenize Data (drop n cs))
      else if c = 0x3C then tokenize TagOpen cs
      else Character c # tokenize Data cs)"
| "tokenize TagOpen [] = [Character 0x3C]"
| "tokenize TagOpen (c # cs) =
     (if is_alpha c
      then tokenize (TagName \<lparr>is_end = False, tag_name = [name_char c], tag_attrs = []\<rparr>) cs
      else if c = 0x2F then tokenize EndTagOpen cs
      else if c = 0x21 \<or> c = 0x3F then [Outside]
      else Character 0x3C # tokenize Data (c # cs))"
| "tokenize EndTagOpen [] = [Character 0x3C, Character 0x2F]"
| "tokenize EndTagOpen (c # cs) =
     (if is_alpha c
      then tokenize (TagName \<lparr>is_end = True, tag_name = [name_char c], tag_attrs = []\<rparr>) cs
      else if c = 0x3E then tokenize Data cs
      else [Outside])"
| "tokenize (TagName tg) [] = []"
| "tokenize (TagName tg) (c # cs) =
     (if is_space c then tokenize (BeforeAttributeName tg) cs
      else if c = 0x2F then tokenize (SelfClosingStartTag tg) cs
      else if c = 0x3E then emit tg # tokenize Data cs
      else tokenize (TagName (tg\<lparr>tag_name := tag_name tg @ [name_char c]\<rparr>)) cs)"
| "tokenize (BeforeAttributeName tg) [] = []"
| "tokenize (BeforeAttributeName tg) (c # cs) =
     (if is_space c then tokenize (BeforeAttributeName tg) cs
      else if c = 0x2F then tokenize (SelfClosingStartTag tg) cs
      else if c = 0x3E then emit tg # tokenize Data cs
      else tokenize (AttributeName tg [name_char c]) cs)"
| "tokenize (AttributeName tg name) [] = []"
| "tokenize (AttributeName tg name) (c # cs) =
     (if is_space c then tokenize (AfterAttributeName tg name) cs
      else if c = 0x2F then tokenize (SelfClosingStartTag (add_attribute name [] tg)) cs
      else if c = 0x3E then emit (add_attribute name [] tg) # tokenize Data cs
      else if c = 0x3D then tokenize (BeforeAttributeValue tg name) cs
      else tokenize (AttributeName tg (name @ [name_char c])) cs)"
| "tokenize (AfterAttributeName tg name) [] = []"
| "tokenize (AfterAttributeName tg name) (c # cs) =
     (if is_space c then tokenize (AfterAttributeName tg name) cs
      else if c = 0x2F then tokenize (SelfClosingStartTag (add_attribute name [] tg)) cs
      else if c = 0x3D then tokenize (BeforeAttributeValue tg name) cs
      else if c = 0x3E then emit (add_attribute name [] tg) # tokenize Data cs
      else tokenize (AttributeName (add_attribute name [] tg) [name_char c]) cs)"
| "tokenize (BeforeAttributeValue tg name) [] = []"
| "tokenize (BeforeAttributeValue tg name) (c # cs) =
     (if is_space c then tokenize (BeforeAttributeValue tg name) cs
      else if c = 0x22 then tokenize (AttributeValue DoubleQuoted tg name []) cs
      else if c = 0x27 then tokenize (AttributeValue SingleQuoted tg name []) cs
      else if c = 0x3E then emit (add_attribute name [] tg) # tokenize Data cs
      else tokenize (AttributeValue Unquoted tg name []) (c # cs))"
| "tokenize (AttributeValue q tg name v) [] = []"
| "tokenize (AttributeValue q tg name v) (c # cs) =
     (if (q = DoubleQuoted \<and> c = 0x22) \<or> (q = SingleQuoted \<and> c = 0x27)
      then tokenize (AfterAttributeValueQuoted (add_attribute name v tg)) cs
      else if q = Unquoted \<and> is_space c then tokenize (BeforeAttributeName (add_attribute name v tg)) cs
      else if q = Unquoted \<and> c = 0x3E then emit (add_attribute name v tg) # tokenize Data cs
      else if c = 0x26 then
        (case character_reference True cs of
           None \<Rightarrow> [Outside]
         | Some (e, n) \<Rightarrow> tokenize (AttributeValue q tg name (v @ e)) (drop n cs))
      else tokenize (AttributeValue q tg name (v @ [if c = 0 then 0xFFFD else c])) cs)"
| "tokenize (AfterAttributeValueQuoted tg) [] = []"
| "tokenize (AfterAttributeValueQuoted tg) (c # cs) =
     (if is_space c then tokenize (BeforeAttributeName tg) cs
      else if c = 0x2F then tokenize (SelfClosingStartTag tg) cs
      else if c = 0x3E then emit tg # tokenize Data cs
      else tokenize (BeforeAttributeName tg) (c # cs))"
| "tokenize (SelfClosingStartTag tg) [] = []"
| "tokenize (SelfClosingStartTag tg) (c # cs) =
     (if c = 0x3E then emit tg # tokenize Data cs
      else tokenize (BeforeAttributeName tg) (c # cs))"
  by pat_completeness auto
termination
  by (relation "measure (\<lambda>(s, input). 2 * length input + reconsumes s)") auto

text \<open>The text of a token sequence, and what it says about each \<open>a\<close> element.\<close>

fun characters :: "token list \<Rightarrow> jsstring" where
  "characters [] = []"
| "characters (Character c # ts) = c # characters ts"
| "characters (StartTag name attrs # ts) = characters ts"
| "characters (EndTag name # ts) = characters ts"
| "characters (Outside # ts) = characters ts"

fun token_anchors :: "nat \<Rightarrow> token list \<Rightarrow> (nat \<times> jsstring option \<times> jsstring) list" where
  \<comment> \<open>For each start tag \<open>a\<close>: how many characters precede it, its \<open>href\<close>, and the
      characters up to the next end tag \<open>a\<close>.\<close>
  "token_anchors off [] = []"
| "token_anchors off (Character c # ts) = token_anchors (Suc off) ts"
| "token_anchors off (StartTag name attrs # ts) =
     (if name = js ''a''
      then [(off, map_of attrs (js ''href''), characters (takeWhile (\<lambda>t. t \<noteq> EndTag (js ''a'')) ts))]
      else [])
     @ token_anchors off ts"
| "token_anchors off (EndTag name # ts) = token_anchors off ts"
| "token_anchors off (Outside # ts) = token_anchors off ts"







section \<open>Processing the DOM (content.js)\<close>

text \<open>
  A node is a text node or an element with its tag name (upper case, as \<open>tagName\<close> gives
  it for HTML elements), its attributes and its children.  An element is processed in a
  page: the settings, \<open>URL_REGEX.lastIndex\<close> (the regex is global, so \<open>test\<close> starts there
  and moves it), and the URLs handed to \<open>manager.preloadLink\<close> so far.  \<open>inside\<close> says
  whether an ancestor of the node is an \<open>a\<close> element, which is what \<open>closest('a')\<close> finds
  above it.
\<close>

datatype node = TextNode jsstring | Element jsstring "(jsstring \<times> jsstring) list" "node list"

record page =
  pg_settings :: settings
  pg_lastIndex :: nat
  pg_preloads :: "jsstring list"

definition hasAttribute :: "node \<Rightarrow> jsstring \<Rightarrow> bool" where
  "hasAttribute n name = (case n of TextNode _ \<Rightarrow> False | Element _ attrs _ \<Rightarrow> map_of attrs name \<noteq> None)"

definition setAttribute :: "jsstring \<Rightarrow> jsstring \<Rightarrow> (jsstring \<times> jsstring) list \<Rightarrow> (jsstring \<times> jsstring) list" where
  "setAttribute name v attrs =
     (if map_of attrs name = None then attrs @ [(name, v)]
      else map (\<lambda>(k, w). if k = name then (k, v) else (k, w)) attrs)"

definition test_global :: "rx \<Rightarrow> jsstring \<Rightarrow> nat \<Rightarrow> bool \<times> nat" where
  \<comment> \<open>\<open>r.test(text)\<close> of a global regex: the answer and the new \<open>lastIndex\<close>.\<close>
  "test_global r text lastIndex =
     (case exec r text lastIndex of None \<Rightarrow> (False, 0) | Some (i, mu) \<Rightarrow> (True, i + length mu))"

text \<open>
  What \<open>temp.innerHTML = markup\<close> builds is the browser's too.  An HTML parser is a
  function from the markup to the children that the element gets; \<open>processTextNode\<close> and
  what calls it take the parser as an argument.  \<open>parse_fragment\<close> follows the HTML
  Standard where the markup holds text, \<open>a\<close> elements that are closed before the next one
  opens, and \<open>img\<close> elements: newlines are normalised (CR LF and CR become LF), the
  markup is tokenized, and the tree is built in the insertion mode \<open>in body\<close>, where
  U+0000 is dropped from text and adjacent characters make one text node.  On other
  markup it answers \<open>None\<close>.  \<open>HTML_std\<close> is the parser that the closed theorems below
  are evaluated with; where \<open>parse_fragment\<close> answers \<open>None\<close>, nothing is said about it.
\<close>

type_synonym html_parser = "jsstring \<Rightarrow> node list"

fun normalize_newlines :: "jsstring \<Rightarrow> jsstring" where
  "normalize_newlines [] = []"
| "normalize_newlines [c] = [if c = 0x0D then 0x0A else c]"
| "normalize_newlines (c # d # cs) =
     (if c = 0x0D \<and> d = 0x0A then 0x0A # normalize_newlines cs
      else if c = 0x0D then 0x0A # normalize_newlines (d # cs)
      else c # normalize_newlines (d # cs))"

definition insert_character :: "cu \<Rightarrow> node list \<Rightarrow> node list" where
  "insert_character c ns =
     (if ns = [] then [TextNode [c]]
      else (case last ns of
              TextNode s \<Rightarrow> butlast ns @ [TextNode (s @ [c])]
            | Element _ _ _ \<Rightarrow> ns @ [TextNode [c]]))"

text \<open>
  \<open>build ts a ns\<close>: the tokens to come, the \<open>a\<close> element that is open (its attributes
  and the children it has so far), and the nodes made before it.
\<close>

fun build :: "token list \<Rightarrow> (attributes \<times> node list) option \<Rightarrow> node list \<Rightarrow> node list option" where
  "build [] None ns = Some ns"
| "build [] (Some (attrs, kids)) ns = Some (ns @ [Element (js ''A'') attrs kids])"
| "build (Character c # ts) None ns =
     build ts None (if c = 0 then ns else insert_character c ns)"
| "build (Character c # ts) (Some (attrs, kids)) ns =
     build ts (Some (attrs, if c = 0 then kids else insert_character c kids)) ns"
| "build (StartTag name attrs # ts) None ns =
     (if name = js ''a'' then build ts (Some (attrs, [])) ns
      else if name = js ''img'' then build ts None (ns @ [Element (js ''IMG'') attrs []])
      else None)"
| "build (StartTag name attrs # ts) (Some (attrs', kids)) ns =
     (if name = js ''img'' then build ts (Some (attrs', kids @ [Element (js ''IMG'') attrs []])) ns
      else None)"
| "build (EndTag name # ts) None ns = None"
| "build (EndTag name # ts) (Some (attrs, kids)) ns =
     (if name = js ''a'' then build ts None (ns @ [Element (js ''A'') attrs kids]) else None)"
| "build (Outside # ts) a ns = None"

definition parse_fragment :: "jsstring \<Rightarrow> node list option" where
  "parse_fragment markup = build (tokenize Data (normalize_newlines markup)) None []"

definition HTML_std :: html_parser where
  "HTML_std markup = (case parse_fragment markup of Some ns \<Rightarrow> ns | None \<Rightarrow> undefined)"

text \<open>
  \<open>querySelectorAll('.' + name)\<close> on a list of sibling nodes: the elements below or among
  them, in document order, whose \<open>class\<close> attribute has \<open>name\<close> among its tokens (in a
  document that is not in quirks mode, where the case of class names counts).
\<close>

fun split_where :: "(cu \<Rightarrow> bool) \<Rightarrow> jsstring \<Rightarrow> jsstring list" where
  "split_where p [] = [[]]"
| "split_where p (c # cs) =
     (if p c then [] # split_where p cs
      else (case split_where p cs of [] \<Rightarrow> [[c]] | w # ws \<Rightarrow> (c # w) # ws))"

definition getAttribute :: "node \<Rightarrow> jsstring \<Rightarrow> jsstring option" where
  "getAttribute n name = (case n of TextNode _ \<Rightarrow> None | Element _ attrs _ \<Rightarrow> map_of attrs name)"

definition has_class :: "jsstring \<Rightarrow> node \<Rightarrow> bool" where
  "has_class name n =
     (case getAttribute n (js ''class'') of
        None \<Rightarrow> False
      | Some v \<Rightarrow> name \<in> set (split_where (\<lambda>c. c \<in> set [0x09, 0x0A, 0x0C, 0x0D, 0x20]) v))"

fun elements_of :: "node \<Rightarrow> node list" and elements_among :: "node list \<Rightarrow> node list" where
  "elements_of (TextNode s) = []"
| "elements_of (Element tag attrs cs) = Element tag attrs cs # elements_among cs"
| "elements_among [] = []"
| "elements_among (n # ns) = elements_of n @ elements_among ns"

definition querySelectorAll_class :: "jsstring \<Rightarrow> node list \<Rightarrow> node list" where
  "querySelectorAll_class name ns = filter (has_class name) (elements_among ns)"

text \<open>
  \<open>processTextNode\<close>: the number of links created, the nodes that stand where the text
  node stood, and the page.  \<open>H\<close> is the HTML parser behind \<open>temp.innerHTML\<close>; \<open>manager\<close>
  says whether \<open>getPreviewManager()\<close> returns one.
\<close>

definition processTextNode :: "url_parser \<Rightarrow> html_parser \<Rightarrow> jsstring \<Rightarrow> bool \<Rightarrow> jsstring \<Rightarrow> page \<Rightarrow> nat \<times> node list \<times> page" where
  "processTextNode P H icon manager text pg =
     (if text = [] then (0, [TextNode text], pg)
      else
        let (found, ri) = test_global URL_REGEX text (pg_lastIndex pg)
        in if \<not> found then (0, [TextNode text], pg\<lparr>pg_lastIndex := ri\<rparr>)
           else
             let pg1 = pg\<lparr>pg_lastIndex := 0\<rparr>;
                 linkedHtml = linkifyText P (pg_settings pg) icon text
             in if \<not> includes_str linkedHtml (js ''instaclick-link'') then (0, [TextNode text], pg1)
                else
                  let temp = H linkedHtml;
                      newLinks = querySelectorAll_class (js ''instaclick-link'') temp;
                      urls = List.map_filter (\<lambda>link. getAttribute link (js ''data-instaclick-url'')) newLinks
                  in (length newLinks, temp,
                      if manager \<and> showPreview (pg_settings pg)
                      then pg1\<lparr>pg_preloads := pg_preloads pg1 @ filter (\<lambda>url. url \<noteq> []) urls\<rparr>
                      else pg1))"

text \<open>
  The tree walker of \<open>processElement\<close> and the loop over the text nodes it accepts, in
  document order.  \<open>parent\<close> is the tag name of the parent element.
\<close>

fun walk_node :: "url_parser \<Rightarrow> html_parser \<Rightarrow> jsstring \<Rightarrow> bool \<Rightarrow> bool \<Rightarrow> jsstring \<Rightarrow> node \<Rightarrow> page \<Rightarrow> nat \<times> node list \<times> page"
  and walk_nodes :: "url_parser \<Rightarrow> html_parser \<Rightarrow> jsstring \<Rightarrow> bool \<Rightarrow> bool \<Rightarrow> jsstring \<Rightarrow> node list \<Rightarrow> page \<Rightarrow> nat \<times> node list \<times> page"
  where
  "walk_node P H icon manager inside parent (TextNode s) pg =
     (if parent = js ''A'' \<or> inside then (0, [TextNode s], pg)
      else if parent = js ''SCRIPT'' \<or> parent = js ''STYLE'' then (0, [TextNode s], pg)
      else if trim s = [] then (0, [TextNode s], pg)
      else processTextNode P H icon manager s pg)"
| "walk_node P H icon manager inside parent (Element tag attrs cs) pg =
     (let (n, cs', pg') = walk_nodes P H icon manager (inside \<or> parent = js ''A'') tag cs pg
      in (n, [Element tag attrs cs'], pg'))"
| "walk_nodes P H icon manager inside parent [] pg = (0, [], pg)"
| "walk_nodes P H icon manager inside parent (c # cs) pg =
     (let (n1, c', pg1) = walk_node P H icon manager inside parent c pg;
          (n2, cs', pg2) = walk_nodes P H icon manager inside parent cs pg1
      in (n1 + n2, c' @ cs', pg2))"

definition PROCESSED :: jsstring where
  "PROCESSED = js ''data-instaclick-processed''"

definition processElement :: "url_parser \<Rightarrow> html_parser \<Rightarrow> jsstring \<Rightarrow> bool \<Rightarrow> bool \<Rightarrow> node \<Rightarrow> page \<Rightarrow> nat \<times> node \<times> page" where
  "processElement P H icon manager inside element pg =
     (case element of
        TextNode _ \<Rightarrow> (0, element, pg)
      | Element tag attrs cs \<Rightarrow>
          if \<not> enabled (pg_settings pg) then (0, element, pg)
          else if hasAttribute element PROCESSED then (0, element, pg)
          else if tag = js ''A'' \<or> inside then (0, element, pg)
          else if tag = js ''SCRIPT'' \<or> tag = js ''STYLE'' then (0, element, pg)
          else
            let (linksCreated, cs', pg') = walk_nodes P H icon manager False tag cs pg
            in (linksCreated, Element tag (setAttribute PROCESSED (js ''true'') attrs) cs', pg'))"

text \<open>
  \<open>LinkProcessor.add\<close>: the queue is a \<open>Set\<close> of element objects.  It holds each element
  once, whatever the element looks like, and keeps the order in which they were added, so
  the model keeps the identities of the elements: \<open>ident\<close> is the identity of \<open>element\<close>.
  The second component says whether the debounced \<open>processQueue\<close> was asked for.
\<close>

type_synonym ident = nat

definition LinkProcessor_add :: "ident \<Rightarrow> node \<Rightarrow> ident list \<Rightarrow> ident list \<times> bool" where
  "LinkProcessor_add ident element queue =
     (if hasAttribute element PROCESSED then (queue, False)
      else (if ident \<in> set queue then queue else queue @ [ident], True))"

definition page0 :: page where
  "page0 = \<lparr>pg_settings = initial_settings, pg_lastIndex = 0, pg_preloads = []\<rparr>"

section \<open>The preview manager (preview.js)\<close>

text \<open>
  \<open>LinkPreviewManager\<close> is a class whose methods mutate \<open>this\<close>; the model passes the
  manager's state explicitly.  \<open>Date.now()\<close> is an argument of every operation that reads
  the clock (milliseconds, an integer).  The card's DOM is reduced to what it displays;
  its position on screen, the QR popup and the expand button are left out.
\<close>

record preview_data =
  pd_type :: jsstring
  pd_url :: jsstring
  pd_domain :: jsstring
  pd_favicon :: jsstring
  pd_siteBadge :: "jsstring option"
  pd_title :: jsstring
  pd_description :: jsstring
  pd_image :: "jsstring option"
  pd_is404 :: bool

record cache_entry =
  ce_data :: preview_data
  ce_timestamp :: int

text \<open>
  A network request started by \<open>fetch\<close>: the URL whose preview it serves, and the
  \<open>AbortSignal\<close> handed to \<open>fetch\<close> (the controller's handle), if any.
\<close>

record request =
  req_url :: jsstring
  req_signal :: "nat option"

datatype card_view = Skeleton | Loading | NotFound jsstring | Content preview_data

record manager =
  cache :: "jsstring \<rightharpoonup> cache_entry"
  currentUrl :: "jsstring option"
  currentLink :: "nat option"
  fetchController :: "nat option"
  controllers :: nat
  aborted :: "nat list"
  inflight :: "request list"
  card :: "card_view option"
  linkAreaHref :: "jsstring option"
  visible :: bool
  deadLinks :: "jsstring list"

definition cacheDuration :: int where
  "cacheDuration = 30 * 60 * 1000"

definition new_manager :: manager where
  "new_manager = \<lparr>cache = Map.empty, currentUrl = None, currentLink = None,
     fetchController = None, controllers = 0, aborted = [], inflight = [],
     card = None, linkAreaHref = None, visible = False, deadLinks = []\<rparr>"

definition setCache :: "int \<Rightarrow> jsstring \<Rightarrow> preview_data \<Rightarrow> manager \<Rightarrow> manager" where
  "setCache now url d st = st\<lparr>cache := (cache st)(url \<mapsto> \<lparr>ce_data = d, ce_timestamp = now\<rparr>)\<rparr>"

definition getFromCache :: "int \<Rightarrow> jsstring \<Rightarrow> manager \<Rightarrow> preview_data option \<times> manager" where
  "getFromCache now url st =
     (case cache st url of
        None \<Rightarrow> (None, st)
      | Some cached \<Rightarrow>
          if now - ce_timestamp cached > cacheDuration
          then (None, st\<lparr>cache := (cache st)(url := None)\<rparr>)
          else (Some (ce_data cached), st))"

definition markDeadLink :: "jsstring \<Rightarrow> manager \<Rightarrow> manager" where
  "markDeadLink url st = st\<lparr>deadLinks := url # deadLinks st\<rparr>"

definition createPreviewElement :: "manager \<Rightarrow> manager" where
  "createPreviewElement st = (case card st of Some _ \<Rightarrow> st | None \<Rightarrow> st\<lparr>card := Some Skeleton\<rparr>)"

definition showLoading :: "manager \<Rightarrow> manager" where
  "showLoading st = st\<lparr>card := Some Loading\<rparr>"

definition rendered :: "preview_data \<Rightarrow> card_view" where
  "rendered d = (if pd_is404 d then NotFound (pd_domain d) else Content d)"

definition renderPreview :: "preview_data \<Rightarrow> manager \<Rightarrow> manager" where
  "renderPreview d st = st\<lparr>card := Some (rendered d)\<rparr>"

text \<open>
  \<open>AbortController.abort()\<close>: the controller is marked aborted, and every request that
  was started with its signal is cancelled.
\<close>

definition abort :: "nat \<Rightarrow> manager \<Rightarrow> manager" where
  "abort c st = st\<lparr>aborted := c # aborted st,
     inflight := filter (\<lambda>r. req_signal r \<noteq> Some c) (inflight st)\<rparr>"

text \<open>
  \<open>fetchPreviewData(url)\<close> takes the URL only, and \<open>fetchGenericPreview\<close> calls
  \<open>fetch(apiUrl)\<close> with no second argument: the request carries no signal.  What the
  request answers is an input of \<open>show_resolved\<close> and \<open>show_rejected\<close>.
\<close>

definition fetchPreviewData :: "jsstring \<Rightarrow> manager \<Rightarrow> manager" where
  "fetchPreviewData url st = st\<lparr>inflight := inflight st @ [\<lparr>req_url = url, req_signal = None\<rparr>]\<rparr>"

text \<open>
  \<open>show\<close> is an async method.  \<open>show_call\<close> is its body up to the \<open>await\<close>;
  \<open>show_resolved\<close> is the rest of the \<open>try\<close> block, run when the promise of the call
  for \<open>url\<close> is fulfilled with \<open>d\<close>; \<open>show_rejected\<close> is the \<open>catch\<close> block.
\<close>

definition show_call :: "int \<Rightarrow> nat \<Rightarrow> jsstring \<Rightarrow> manager \<Rightarrow> manager" where
  "show_call now linkElement url st =
     (if url = [] then st
      else
        let st1 = createPreviewElement (st\<lparr>currentUrl := Some url, currentLink := Some linkElement\<rparr>);
            st2 = st1\<lparr>linkAreaHref := Some url\<rparr>;
            st3 = (case fetchController st2 of None \<Rightarrow> st2 | Some c \<Rightarrow> abort c st2);
            (cached, st4) = getFromCache now url st3
        in case cached of
             Some d \<Rightarrow> (renderPreview d st4)\<lparr>visible := True\<rparr>
           | None \<Rightarrow>
               let st5 = (showLoading st4)\<lparr>visible := True\<rparr>;
                   st6 = st5\<lparr>fetchController := Some (controllers st5),
                             controllers := Suc (controllers st5)\<rparr>
               in fetchPreviewData url st6)"

definition finish_request :: "jsstring \<Rightarrow> manager \<Rightarrow> manager" where
  "finish_request url st = st\<lparr>inflight := remove1 \<lparr>req_url = url, req_signal = None\<rparr> (inflight st)\<rparr>"

definition show_resolved :: "int \<Rightarrow> jsstring \<Rightarrow> preview_data \<Rightarrow> manager \<Rightarrow> manager" where
  "show_resolved now url d st0 =
     (let st = finish_request url st0 in
      if currentUrl st \<noteq> Some url then st
      else
        let st1 = renderPreview d (setCache now url d st)
        in if pd_is404 d then markDeadLink url st1 else st1)"

definition fallback_preview :: "jsstring \<Rightarrow> jsstring \<Rightarrow> preview_data" where
  "fallback_preview url domain = \<lparr>pd_type = js ''website'', pd_url = url, pd_domain = domain,
     pd_favicon = js ''https://www.google.com/s2/favicons?domain='' @ domain @ js ''&sz=32'',
     pd_siteBadge = None, pd_title = domain, pd_description = url, pd_image = None,
     pd_is404 = False\<rparr>"

definition show_rejected :: "url_parser \<Rightarrow> jsstring \<Rightarrow> jsstring \<Rightarrow> manager \<Rightarrow> manager" where
  \<comment> \<open>\<open>error_name\<close> is \<open>error.name\<close>; if \<open>new URL(url)\<close> throws here, nothing is rendered.\<close>
  "show_rejected P url error_name st0 =
     (let st = finish_request url st0 in
      if error_name \<noteq> js ''AbortError''
      then (case P url of
              None \<Rightarrow> st
            | Some u \<Rightarrow> renderPreview (fallback_preview url (replace_first (js ''www.'') [] (hostname u))) st)
      else st)"

definition hide :: "manager \<Rightarrow> manager" where
  "hide st = st\<lparr>visible := False, currentUrl := None, currentLink := None\<rparr>"

definition example_data :: "jsstring \<Rightarrow> preview_data" where
  "example_data url = \<lparr>pd_type = js ''website'', pd_url = url, pd_domain = js ''example.com'',
     pd_favicon = js ''https://www.google.com/s2/favicons?domain=example.com&sz=32'',
     pd_siteBadge = None, pd_title = js ''Example Domain'', pd_description = [],
     pd_image = None, pd_is404 = False\<rparr>"

section \<open>The background worker: click history\<close>

text \<open>
  \<open>trackLinkClick\<close> reads and writes \<open>chrome.storage\<close>; the model passes the store: the
  \<open>settings\<close> key of \<open>storage.sync\<close> and the \<open>clickHistory\<close> and \<open>stats\<close> keys of
  \<open>storage.local\<close>, each absent or present.  The storage calls are taken to succeed.
  \<open>Date.now()\<close> is read twice, for the timestamp and for the id; \<open>random\<close> is
  \<open>Math.random().toString(36).substr(2, 9)\<close>.
\<close>

record worker_settings =
  ws_enabled :: bool
  ws_openInNewTab :: bool
  ws_showPreview :: bool
  ws_highlightLinks :: bool
  ws_linkStyle :: jsstring
  ws_trackHistory :: bool
  ws_expandShortUrls :: bool
  ws_maxHistoryItems :: nat

definition DEFAULT_SETTINGS :: worker_settings where
  "DEFAULT_SETTINGS = \<lparr>ws_enabled = True, ws_openInNewTab = True, ws_showPreview = True,
     ws_highlightLinks = True, ws_linkStyle = js ''default'', ws_trackHistory = True,
     ws_expandShortUrls = True, ws_maxHistoryItems = 100\<rparr>"

record history_entry =
  he_url :: jsstring
  he_hostname :: jsstring
  he_timestamp :: int
  he_id :: jsstring

text \<open>
  \<open>stats.domains\<close> is a plain object.  Reading a key that it does not have finds what
  \<open>Object.prototype\<close> has under that name: a function, or for \<open>__proto__\<close> the prototype
  itself.  \<open>|| 0\<close> keeps them, and \<open>+ 1\<close> then makes a string of them.  Writing to
  \<open>__proto__\<close>, when the object has no property of its own under that name, changes
  nothing, the value being no object.  So a per-hostname count is a number or a string.
\<close>

datatype tally = Number nat | Text jsstring

record click_stats =
  totalClicks :: nat
  domains :: "jsstring \<rightharpoonup> tally"

definition inherited :: "jsstring \<Rightarrow> jsstring option" where
  \<comment> \<open>What \<open>Object.prototype\<close> holds under a key, as the string that \<open>+\<close> turns it into.\<close>
  "inherited key =
     (if key = js ''__proto__'' then Some (js ''[object Object]'')
      else if key \<in> set (map js [''__defineGetter__'', ''__defineSetter__'', ''__lookupGetter__'',
                ''__lookupSetter__'', ''hasOwnProperty'', ''isPrototypeOf'', ''propertyIsEnumerable'',
                ''toLocaleString'', ''toString'', ''valueOf''])
      then Some (js ''function '' @ key @ js ''() { [native code] }'')
      else if key = js ''constructor'' then Some (js ''function Object() { [native code] }'')
      else None)"

definition count_click :: "(jsstring \<rightharpoonup> tally) \<Rightarrow> jsstring \<Rightarrow> (jsstring \<rightharpoonup> tally)" where
  \<comment> \<open>\<open>domains[key] = (domains[key] || 0) + 1\<close>\<close>
  "count_click ds key =
     (let current = (case ds key of Some v \<Rightarrow> Some v | None \<Rightarrow> map_option Text (inherited key));
          new = (case current of
                   None \<Rightarrow> Number 1
                 | Some (Number n) \<Rightarrow> Number (n + 1)
                 | Some (Text s) \<Rightarrow> if s = [] then Number 1 else Text (s @ js ''1''))
      in if key = js ''__proto__'' \<and> ds key = None then ds else ds(key \<mapsto> new))"

record store =
  stored_settings :: "worker_settings option"
  stored_clickHistory :: "history_entry list option"
  stored_stats :: "click_stats option"

datatype track_error = NoUrlProvided | Thrown

datatype track_response = Tracked bool | Failed track_error

definition number_string :: "int \<Rightarrow> jsstring" where
  \<comment> \<open>An integer in a template literal.\<close>
  "number_string n = (if n < 0 then js ''-'' @ decimal (nat (- n)) else decimal (nat n))"

definition strip_www :: "jsstring \<Rightarrow> jsstring" where
  \<comment> \<open>\<open>hostname.replace(/^www\./, '')\<close>\<close>
  "strip_www h = (if take 4 h = js ''www.'' then drop 4 h else h)"

definition trackLinkClick :: "url_parser \<Rightarrow> int \<Rightarrow> int \<Rightarrow> jsstring \<Rightarrow> jsstring \<Rightarrow> store \<Rightarrow> track_response \<times> store" where
  "trackLinkClick P now_timestamp now_id random url st =
     (if url = [] then (Failed NoUrlProvided, st)
      else
        let settings = (case stored_settings st of None \<Rightarrow> DEFAULT_SETTINGS | Some s \<Rightarrow> s)
        in if \<not> ws_trackHistory settings then (Tracked False, st)
           else
             let clickHistory = (case stored_clickHistory st of None \<Rightarrow> [] | Some h \<Rightarrow> h)
             in case P url of
                  None \<Rightarrow> (Failed Thrown, st)
                | Some parsed \<Rightarrow>
                    let entry = \<lparr>he_url = url, he_hostname = strip_www (hostname parsed),
                                 he_timestamp = now_timestamp,
                                 he_id = number_string now_id @ js ''-'' @ random\<rparr>;
                        trimmedHistory = take 100 (entry # clickHistory);
                        st1 = st\<lparr>stored_clickHistory := Some trimmedHistory\<rparr>;
                        stats = (case stored_stats st1 of
                                   None \<Rightarrow> \<lparr>totalClicks = 0, domains = Map.empty\<rparr>
                                 | Some s \<Rightarrow> s);
                        stats' = stats\<lparr>totalClicks := totalClicks stats + 1,
                                   domains := count_click (domains stats) (he_hostname entry)\<rparr>
                    in (Tracked True, st1\<lparr>stored_stats := Some stats'\<rparr>))"

definition example_store :: store where
  "example_store = \<lparr>stored_settings = Some (DEFAULT_SETTINGS\<lparr>ws_trackHistory := False\<rparr>),
     stored_clickHistory = Some [\<lparr>he_url = js ''https://a.example.com/'', he_hostname = js ''a.example.com'',
       he_timestamp = 5, he_id = js ''5-abcdefghi''\<rparr>],
     stored_stats = Some \<lparr>totalClicks = 1, domains = [js ''a.example.com'' \<mapsto> Number 1]\<rparr>\<rparr>"

section \<open>A match lies in the subject and consumes what it must\<close>

lemma adv_refl: "adv z 0 z"
  by (simp add: adv_def)

lemma adv_trans: "adv z a z1 \<Longrightarrow> adv z1 b z2 \<Longrightarrow> adv z (a + b) z2"
  unfolding adv_def
  by (elim exE conjE, rule_tac x = "pre @ prea" in exI) simp

lemma adv_mono: "adv z a z' \<Longrightarrow> b \<le> a \<Longrightarrow> adv z b z'"
  unfolding adv_def by auto

lemma stay: "k z = Some x \<Longrightarrow> n = 0 \<Longrightarrow> \<exists>z'. adv z n z' \<and> k z' = Some x"
  by (rule exI [of _ z]) (simp add: adv_def)

lemma rep_adv:
  assumes step: "\<And>k z x. mr k z = Some x \<Longrightarrow> \<exists>z'. adv z ml z' \<and> k z' = Some x"
  shows "rep mr lo n k z = Some (x::'a) \<Longrightarrow> \<exists>z'. adv z (lo * ml) z' \<and> k z' = Some x"
proof (induction n arbitrary: lo z)
  case 0
  then have "lo = 0" "k z = Some x" by (auto split: if_splits)
  then show ?case by (intro stay) simp_all
next
  case (Suc n)
  let ?d = "\<lambda>z'. if lo = 0 \<and> length (snd z') = length (snd z) then None else rep mr (lo - 1) n k z'"
  show ?case
  proof (cases "mr ?d z")
    case None
    with Suc.prems have "lo = 0" "k z = Some x" by (auto split: if_splits)
    then show ?thesis by (intro stay) simp_all
  next
    case (Some y)
    with Suc.prems have "y = x" by simp
    with Some step obtain z1 where z1: "adv z ml z1" "?d z1 = Some x" by blast
    then have "rep mr (lo - 1) n k z1 = Some x" by (auto split: if_splits)
    from Suc.IH [OF this] obtain z2 where z2: "adv z1 ((lo - 1) * ml) z2" "k z2 = Some x" by blast
    have "adv z (ml + (lo - 1) * ml) z2" using z1(1) z2(1) by (rule adv_trans)
    moreover have "lo * ml \<le> ml + (lo - 1) * ml" by (cases lo) simp_all
    ultimately have "adv z (lo * ml) z2" by (rule adv_mono)
    with z2(2) show ?thesis by blast
  qed
qed

lemma m_adv: "m r k z = Some (x::'a) \<Longrightarrow> \<exists>z'. adv z (minlen r) z' \<and> k z' = Some x"
proof (induction r arbitrary: k z x)
  case (Cls p)
  then obtain c cs where "snd z = c # cs" "p c" "k (c # fst z, cs) = Some x"
    by (auto split: list.splits if_splits)
  then have "adv z 1 (c # fst z, cs)" by (simp add: adv_def)
  with \<open>k (c # fst z, cs) = Some x\<close> show ?case
    by (simp del: split_paired_Ex) blast
next
  case Eps
  then show ?case by (intro stay) simp_all
next
  case (Seq r1 r2)
  from Seq.prems have "m r1 (m r2 k) z = Some x" by simp
  from Seq.IH(1) [OF this] obtain z1 where z1: "adv z (minlen r1) z1" "m r2 k z1 = Some x" by blast
  from Seq.IH(2) [OF z1(2)] obtain z2 where z2: "adv z1 (minlen r2) z2" "k z2 = Some x" by blast
  from adv_trans [OF z1(1) z2(1)] z2(2) show ?case
    by (simp del: split_paired_Ex) blast
next
  case (Alt r1 r2)
  show ?case
  proof (cases "m r1 k z")
    case None
    with Alt.prems have "m r2 k z = Some x" by simp
    from Alt.IH(2) [OF this] obtain z' where "adv z (minlen r2) z'" "k z' = Some x" by blast
    then show ?thesis
      using adv_mono [of z "minlen r2" z' "min (minlen r1) (minlen r2)"]
      by (simp del: split_paired_Ex) blast
  next
    case (Some y)
    with Alt.prems have "m r1 k z = Some x" by simp
    from Alt.IH(1) [OF this] obtain z' where "adv z (minlen r1) z'" "k z' = Some x" by blast
    then show ?thesis
      using adv_mono [of z "minlen r1" z' "min (minlen r1) (minlen r2)"]
      by (simp del: split_paired_Ex) blast
  qed
next
  case (Rep lo hi r)
  from Rep.prems have "rep (m r) lo (case hi of Some h \<Rightarrow> h | None \<Rightarrow> lo + length (snd z)) k z = Some x"
    by simp
  from rep_adv [of "m r" "minlen r", OF Rep.IH this] show ?case by simp
next
  case WordB
  then show ?case by (intro stay) (simp_all split: if_splits)
next
  case (NotBehind p)
  then show ?case by (intro stay) (simp_all split: if_splits list.splits)
next
  case Bol
  then show ?case by (intro stay) (simp_all split: if_splits)
next
  case Eol
  then show ?case by (intro stay) (simp_all split: if_splits)
qed

lemma scan_adv:
  "scan r b rest = Some (s, e) \<Longrightarrow>
     (\<exists>skipped. rest = skipped @ snd s \<and> fst s = rev skipped @ b) \<and> adv s (minlen r) e"
proof (induction rest arbitrary: b)
  case Nil
  then show ?case by (auto split: option.splits dest: m_adv)
next
  case (Cons c cs)
  show ?case
  proof (cases "m r Some (b, c # cs)")
    case None
    with Cons.prems have "scan r (c # b) cs = Some (s, e)" by simp
    from Cons.IH [OF this] obtain skipped where
      "cs = skipped @ snd s" "fst s = rev skipped @ c # b" "adv s (minlen r) e" by blast
    then show ?thesis by (intro conjI exI [of _ "c # skipped"]) simp_all
  next
    case (Some y)
    with Cons.prems have "s = (b, c # cs)" "y = e" by simp_all
    with Some show ?thesis by (auto dest: m_adv)
  qed
qed

lemma exec_sound:
  assumes "exec r text ri = Some (i, mu)"
  shows "ri \<le> i \<and> i + length mu \<le> length text \<and> mu = take (length mu) (drop i text)
         \<and> minlen r \<le> length mu"
proof -
  from assms have le: "ri \<le> length text" by (simp add: exec_def split: if_splits)
  from assms obtain s e where sc: "scan r (rev (take ri text)) (drop ri text) = Some (s, e)"
    and i: "i = length (fst s)" and mu: "mu = take (length (snd s) - length (snd e)) (snd s)"
    by (auto simp: exec_def split: if_splits option.splits)
  from scan_adv [OF sc] obtain skipped pre where
    sk: "drop ri text = skipped @ snd s" "fst s = rev skipped @ rev (take ri text)"
    and pre: "snd s = pre @ snd e" "minlen r \<le> length pre"
    by (auto simp: adv_def)
  have mu': "mu = pre" using mu pre by simp
  have tx: "text = take ri text @ skipped @ pre @ snd e"
    using sk(1) pre(1) by (metis append_take_drop_id)
  have i': "i = ri + length skipped" using i sk(2) le by simp
  have "length text = ri + length skipped + length pre + length (snd e)"
    using arg_cong [OF tx, of length] le by simp
  moreover have "drop i text = pre @ snd e"
  proof -
    have "drop i text = drop (length skipped) (drop ri text)" by (simp add: i' add.commute)
    then show ?thesis using sk(1) pre(1) by simp
  qed
  ultimately show ?thesis using mu' i' pre(2) by simp
qed

lemma minlen_URL_REGEX: "minlen URL_REGEX \<ge> 1"
  by (simp add: URL_REGEX_def seqs_def alts_def lit_def rx_opt_def rx_star_def rx_plus_def)

lemma exec_URL_REGEX:
  "exec URL_REGEX text ri = Some (i, mu) \<Longrightarrow>
     ri \<le> i \<and> i + length mu \<le> length text \<and> mu = take (length mu) (drop i text) \<and> 0 < length mu"
  using exec_sound [of URL_REGEX "text" ri i mu] minlen_URL_REGEX by auto

lemma exec_URL_REGEX_progress:
  "exec URL_REGEX t ri = Some (i, mu) \<Longrightarrow> ri < i + length mu \<and> i + length mu \<le> length t"
  using exec_URL_REGEX [of t ri i mu] by linarith

termination linkify_loop
  by (relation "measure (\<lambda>(P, st, icon, text, ri, lastIndex, result). Suc (length text) - ri)")
     (auto dest!: exec_URL_REGEX_progress)

termination linkify_parts
  by (relation "measure (\<lambda>(P, text, ri, lastIndex, result). Suc (length text) - ri)")
     (auto dest!: exec_URL_REGEX_progress)

termination candidates
  by (relation "measure (\<lambda>(t, ri). Suc (length t) - ri)")
     (auto dest!: exec_URL_REGEX_progress)

declare linkify_loop.simps [simp del] linkify_parts.simps [simp del] candidates.simps [simp del]

section \<open>The loop of linkifyText\<close>

lemma exec_cases:
  obtains (none) "exec URL_REGEX t ri = None"
  | (skip) i mu where "exec URL_REGEX t ri = Some (i, mu)" "\<not> accepted P mu"
  | (link) i mu where "exec URL_REGEX t ri = Some (i, mu)" "accepted P mu"
  by (cases "exec URL_REGEX t ri") auto

lemma candidates_None: "exec URL_REGEX t ri = None \<Longrightarrow> candidates t ri = []"
  by (subst candidates.simps) simp

lemma candidates_Some:
  "exec URL_REGEX t ri = Some (i, mu) \<Longrightarrow> candidates t ri = (i, mu) # candidates t (i + length mu)"
  by (subst candidates.simps) simp

lemma linkify_parts_None:
  "exec URL_REGEX t ri = None \<Longrightarrow> linkify_parts P t ri li res = res @ [Plain (drop li t)]"
  by (subst linkify_parts.simps) simp

lemma linkify_parts_skip:
  "exec URL_REGEX t ri = Some (i, mu) \<Longrightarrow> \<not> accepted P mu \<Longrightarrow>
     linkify_parts P t ri li res = linkify_parts P t (i + length mu) li res"
  by (subst linkify_parts.simps) (auto simp: accepted_def split: option.splits)

lemma linkify_parts_link:
  "exec URL_REGEX t ri = Some (i, mu) \<Longrightarrow> accepted P mu \<Longrightarrow>
     linkify_parts P t ri li res
       = linkify_parts P t (i + length mu) (i + length mu)
           (res @ [Plain (slice t li i), Anchor (the (sanitizeUrl P mu)) mu])"
  by (subst linkify_parts.simps) (auto simp: accepted_def split: option.splits)




lemma linkify_parts_acc:
  "linkify_parts P t ri li (acc @ res) = acc @ linkify_parts P t ri li res"
proof (induction t ri arbitrary: li res rule: candidates.induct)
  case (1 t ri)
  show ?case
  proof (cases rule: exec_cases [where t = t and ri = ri and P = P])
    case none
    then show ?thesis by (simp add: linkify_parts_None)
  next
    case (skip i mu)
    then show ?thesis
      using "1.IH" [OF skip(1) refl] by (simp add: linkify_parts_skip)
  next
    case (link i mu)
    then show ?thesis
      using "1.IH" [OF link(1) refl, of "i + length mu"
          "res @ [Plain (slice t li i), Anchor (the (sanitizeUrl P mu)) mu]"]
      by (simp add: linkify_parts_link)
  qed
qed




lemma anchors_at_append:
  "anchors_at off (ps @ qs)
     = anchors_at off ps @ anchors_at (off + length (concat (map part_text ps))) qs"
proof (induction ps arbitrary: off)
  case Nil
  show ?case by simp
next
  case (Cons p ps)
  show ?case by (cases p) (simp_all add: Cons.IH add.assoc)
qed

lemma linkify_parts_anchors:
  "li \<le> ri \<Longrightarrow>
   anchors_at li (linkify_parts P t ri li [])
     = map (\<lambda>(i, mu). (i, the (sanitizeUrl P mu), mu))
         (filter (\<lambda>(i, mu). accepted P mu) (candidates t ri))"
proof (induction t ri arbitrary: li rule: candidates.induct)
  case (1 t ri)
  show ?case
  proof (cases rule: exec_cases [where t = t and ri = ri and P = P])
    case none
    then show ?thesis by (simp add: candidates_None linkify_parts_None)
  next
    case (skip i mu)
    from exec_URL_REGEX [OF skip(1)] "1.prems" have "li \<le> i + length mu" by simp
    then show ?thesis
      using "1.IH" [OF skip(1) refl, of li] skip
      by (simp add: candidates_Some linkify_parts_skip)
  next
    case (link i mu)
    from exec_URL_REGEX [OF link(1)] "1.prems"
    have le: "li \<le> i" "i \<le> length t" by simp_all
    have sl: "length (slice t li i) = i - li" using le(2) by (simp add: slice_def)
    have "linkify_parts P t ri li []
            = [Plain (slice t li i), Anchor (the (sanitizeUrl P mu)) mu]
                @ linkify_parts P t (i + length mu) (i + length mu) []"
      using linkify_parts_link [OF link, of li "[]"]
        linkify_parts_acc [of P t _ _ "[Plain (slice t li i), Anchor (the (sanitizeUrl P mu)) mu]" "[]"]
      by simp
    then show ?thesis
      using "1.IH" [OF link(1) refl, of "i + length mu"] link le(1)
      by (simp add: candidates_Some anchors_at_append sl)
  qed
qed

lemma candidates_from:
  "(i, mu) \<in> set (candidates t ri) \<Longrightarrow> ri \<le> i \<and> ri < i + length mu"
proof (induction t ri rule: candidates.induct)
  case (1 t ri)
  from "1.prems" obtain j nu where ex: "exec URL_REGEX t ri = Some (j, nu)"
    by (cases "exec URL_REGEX t ri") (auto simp: candidates_None)
  from "1.prems" have mem: "(i, mu) = (j, nu) \<or> (i, mu) \<in> set (candidates t (j + length nu))"
    by (simp add: candidates_Some [OF ex])
  from exec_URL_REGEX [OF ex] exec_URL_REGEX_progress [OF ex]
  have p: "ri \<le> j" "ri < j + length nu" by simp_all
  from mem show ?case
  proof
    assume "(i, mu) = (j, nu)"
    with p show ?thesis by simp
  next
    assume "(i, mu) \<in> set (candidates t (j + length nu))"
    from "1.IH" [OF ex refl this] p show ?thesis by simp
  qed
qed

lemma candidates_index_once:
  "(i, mu) \<in> set (candidates t ri) \<Longrightarrow>
     filter (\<lambda>(j, nu). j = i) (candidates t ri) = [(i, mu)]"
proof (induction t ri rule: candidates.induct)
  case (1 t ri)
  from "1.prems" obtain j nu where ex: "exec URL_REGEX t ri = Some (j, nu)"
    by (cases "exec URL_REGEX t ri") (auto simp: candidates_None)
  from "1.prems" have mem: "(i, mu) = (j, nu) \<or> (i, mu) \<in> set (candidates t (j + length nu))"
    by (simp add: candidates_Some [OF ex])
  from exec_URL_REGEX [OF ex] exec_URL_REGEX_progress [OF ex]
  have p: "ri \<le> j" "ri < j + length nu" "j < j + length nu" by simp_all
  have unfold: "candidates t ri = (j, nu) # candidates t (j + length nu)"
    by (rule candidates_Some [OF ex])
  have later: "j < i'" if "(i', mu') \<in> set (candidates t (j + length nu))" for i' mu'
    using candidates_from [OF that] p(3) by linarith
  show ?case
  proof (cases "i = j")
    case True
    have none: "filter (\<lambda>(j', nu'). j' = i) (candidates t (j + length nu)) = []"
      using later True by (fastforce simp: filter_empty_conv)
    have "(i, mu) = (j, nu)"
      using mem later [of i mu] True by auto
    with none True show ?thesis by (simp add: unfold)
  next
    case False
    with mem have "(i, mu) \<in> set (candidates t (j + length nu))" by auto
    from "1.IH" [OF ex refl this] False show ?thesis by (simp add: unfold)
  qed
qed

section \<open>What the regular expressions of the helpers accept\<close>

lemma seqs_Cons: "seqs (r # rs) = Seq r (seqs rs)"
  by (simp add: seqs_def)

lemma seqs_Nil: "seqs [] = Eps"
  by (simp add: seqs_def)

lemma to_lower_idem: "to_lower (to_lower c) = to_lower c"
  unfolding to_lower_def is_upper_def
  by (auto simp: word_le_nat_alt word_less_nat_alt unat_word_ariths)

lemma m_lit:
  "m (lit w) k (b, rest) =
     (if length w \<le> length rest \<and> map to_lower (take (length w) rest) = map to_lower (js w)
      then k (rev (take (length w) rest) @ b, drop (length w) rest) else None)"
proof (induction w arbitrary: b rest)
  case Nil
  show ?case by (simp add: lit_def seqs_def js_def)
next
  case (Cons a w)
  have l: "lit (a # w) = Seq (Cls (ci a)) (lit w)"
    by (simp add: lit_def seqs_def)
  show ?case
  proof (cases rest)
    case Nil
    then show ?thesis by (simp add: l)
  next
    case (Cons c cs)
    then show ?thesis
      by (simp add: l Cons.IH ci_def js_def)
  qed
qed

lemma m_alts_None_iff: "m (alts rs) k z = None \<longleftrightarrow> (\<forall>r \<in> set rs. m r k z = None)"
  by (induction rs) (auto simp: alts_def split: option.splits list.splits)

lemma scan_None_iff:
  "scan r b rest = None \<longleftrightarrow>
     (\<forall>i \<le> length rest. m r Some (rev (take i rest) @ b, drop i rest) = None)"
proof (induction rest arbitrary: b)
  case Nil
  show ?case by (simp split: option.splits)
next
  case (Cons c cs)
  have "(\<forall>i \<le> length (c # cs). m r Some (rev (take i (c # cs)) @ b, drop i (c # cs)) = None)
        \<longleftrightarrow> m r Some (b, c # cs) = None
            \<and> (\<forall>i \<le> length cs. m r Some (rev (take i cs) @ c # b, drop i cs) = None)"
    (is "?L \<longleftrightarrow> ?A \<and> ?B")
  proof
    assume L: ?L
    have ?A using L [rule_format, of 0] by simp
    moreover have ?B
    proof (intro allI impI)
      fix i assume "i \<le> length cs"
      then show "m r Some (rev (take i cs) @ c # b, drop i cs) = None"
        using L [rule_format, of "Suc i"] by simp
    qed
    ultimately show "?A \<and> ?B" ..
  next
    assume AB: "?A \<and> ?B"
    show ?L
    proof (intro allI impI)
      fix i assume i: "i \<le> length (c # cs)"
      show "m r Some (rev (take i (c # cs)) @ b, drop i (c # cs)) = None"
      proof (cases i)
        case 0
        with AB show ?thesis by simp
      next
        case (Suc j)
        with AB i show ?thesis by simp
      qed
    qed
  qed
  then show ?case
    using Cons.IH [of "c # b"] by (simp split: option.splits)
qed

lemma m_opt:
  "m (rx_opt r) k z =
     (case m r (\<lambda>z'. if length (snd z') = length (snd z) then None else k z') z of
        Some x \<Rightarrow> Some x | None \<Rightarrow> k z)"
  by (simp add: rx_opt_def cong: if_cong)

lemma m_lit_eol:
  "m (lit e) (m (Seq Eol Eps) Some) (b, r) \<noteq> None \<longleftrightarrow>
     length r = length e \<and> map to_lower r = map to_lower (js e)"
proof (cases "length e \<le> length r")
  case False
  then show ?thesis by (auto simp: m_lit)
next
  case True
  then have "drop (length e) r = [] \<longleftrightarrow> length r = length e" by auto
  then show ?thesis using True by (auto simp: m_lit)
qed

lemma starts_with_ci_append:
  "starts_with_ci s (u @ v) \<longleftrightarrow> starts_with_ci s u \<and> starts_with_ci (drop (length u) s) v"
proof (cases "length u + length v \<le> length s")
  case False
  then show ?thesis by (auto simp: starts_with_ci_def)
next
  case True
  have "take (length u + length v) s = take (length u) s @ take (length v) (drop (length u) s)"
    by (simp add: take_add)
  then show ?thesis using True by (auto simp: starts_with_ci_def)
qed

lemma m_lit_starts:
  "m (lit w) k (b, rest) =
     (if starts_with_ci rest (js w) then k (rev (take (length w) rest) @ b, drop (length w) rest)
      else None)"
  by (simp add: m_lit starts_with_ci_def js_def)

lemma js_append: "js (u @ v) = js u @ js v"
  by (simp add: js_def)

lemma length_js: "length (js w) = length w"
  by (simp add: js_def)

lemma whole_ci:
  "starts_with_ci r w \<and> length r = length w \<longleftrightarrow> length r = length w \<and> map to_lower r = map to_lower w"
  by (auto simp: starts_with_ci_def)

lemma m_dot_ext:
  "m (seqs [lit d, alts (map lit es), Eol]) Some (b, rest) \<noteq> None \<longleftrightarrow>
     (\<exists>e \<in> set es. length rest = length (d @ e) \<and> map to_lower rest = map to_lower (js (d @ e)))"
proof -
  have ext: "m (alts (map lit es)) (m (Seq Eol Eps) Some) (b', r') \<noteq> None \<longleftrightarrow>
               (\<exists>e \<in> set es. length r' = length e \<and> map to_lower r' = map to_lower (js e))" for b' r'
  proof -
    have "m (alts (map lit es)) (m (Seq Eol Eps) Some) (b', r') \<noteq> None \<longleftrightarrow>
            (\<exists>e \<in> set es. m (lit e) (m (Seq Eol Eps) Some) (b', r') \<noteq> None)"
      using m_alts_None_iff [of "map lit es" "m (Seq Eol Eps) Some" "(b', r')"] by auto
    then show ?thesis by (simp only: m_lit_eol)
  qed
  have unfold: "m (seqs [lit d, alts (map lit es), Eol]) Some (b, rest)
      = (if starts_with_ci rest (js d)
         then m (alts (map lit es)) (m (Seq Eol Eps) Some)
                (rev (take (length d) rest) @ b, drop (length d) rest)
         else None)"
    by (simp only: seqs_Cons seqs_Nil m.simps(3) m_lit_starts)
  have key: "(starts_with_ci rest (js d) \<and> length (drop (length d) rest) = length e
          \<and> map to_lower (drop (length d) rest) = map to_lower (js e))
        \<longleftrightarrow> (length rest = length (d @ e) \<and> map to_lower rest = map to_lower (js (d @ e)))" for e
  proof -
    have "starts_with_ci rest (js (d @ e)) \<and> length rest = length (js (d @ e))
            \<longleftrightarrow> starts_with_ci rest (js d) \<and> length (drop (length d) rest) = length e
                \<and> map to_lower (drop (length d) rest) = map to_lower (js e)"
      unfolding js_append starts_with_ci_append
      using whole_ci [of "drop (length d) rest" "js e"]
      by (auto simp: length_js starts_with_ci_def)
    then show ?thesis
      using whole_ci [of rest "js (d @ e)"] by (simp add: length_js)
  qed
  show ?thesis
  proof (cases "starts_with_ci rest (js d)")
    case True
    have "(\<exists>e \<in> set es. length (drop (length d) rest) = length e
             \<and> map to_lower (drop (length d) rest) = map to_lower (js e))
          \<longleftrightarrow> (\<exists>e \<in> set es. length rest = length (d @ e)
             \<and> map to_lower rest = map to_lower (js (d @ e)))"
      using key True by blast
    then show ?thesis
      unfolding unfold using True by (simp only: ext if_True)
  next
    case False
    have "\<not> (\<exists>e \<in> set es. length rest = length (d @ e)
             \<and> map to_lower rest = map to_lower (js (d @ e)))"
      using key False by blast
    then show ?thesis
      unfolding unfold using False by simp
  qed
qed

lemma isFileExtension_iff:
  "isFileExtension s \<longleftrightarrow>
     (\<exists>e \<in> set file_extensions. ends_with (toLowerCase s) (js (''.'' @ e)))"
proof -
  have low: "map to_lower (js (''.'' @ e)) = js (''.'' @ e)" if "e \<in> set file_extensions" for e
    using that by (auto simp: file_extensions_def js_def to_lower_def is_upper_def)
  have "isFileExtension s \<longleftrightarrow>
          (\<exists>i \<le> length s. \<exists>e \<in> set file_extensions.
             length (drop i s) = Suc (length e) \<and> map to_lower (drop i s) = js (''.'' @ e))"
    unfolding isFileExtension_def test_def FILE_EXTENSIONS_def
    using low by (auto simp: scan_None_iff m_dot_ext simp del: not_None_eq)
  also have "\<dots> \<longleftrightarrow> (\<exists>e \<in> set file_extensions. ends_with (toLowerCase s) (js (''.'' @ e)))"
  proof
    assume "\<exists>i \<le> length s. \<exists>e \<in> set file_extensions.
             length (drop i s) = Suc (length e) \<and> map to_lower (drop i s) = js (''.'' @ e)"
    then obtain i e where ie: "i \<le> length s" "e \<in> set file_extensions"
      "length (drop i s) = Suc (length e)" "map to_lower (drop i s) = js (''.'' @ e)" by blast
    have "length s - length (js (''.'' @ e)) = i" using ie(1,3) by (simp add: js_def)
    then have "ends_with (toLowerCase s) (js (''.'' @ e))"
      using ie by (simp add: ends_with_def toLowerCase_def drop_map js_def)
    with ie(2) show "\<exists>e \<in> set file_extensions. ends_with (toLowerCase s) (js (''.'' @ e))" by blast
  next
    assume "\<exists>e \<in> set file_extensions. ends_with (toLowerCase s) (js (''.'' @ e))"
    then obtain e where e: "e \<in> set file_extensions" "ends_with (toLowerCase s) (js (''.'' @ e))"
      by blast
    let ?i = "length s - Suc (length e)"
    from e(2) have "Suc (length e) \<le> length s" "map to_lower (drop ?i s) = js (''.'' @ e)"
      by (simp_all add: ends_with_def toLowerCase_def drop_map js_def)
    then have "?i \<le> length s \<and> length (drop ?i s) = Suc (length e)
               \<and> map to_lower (drop ?i s) = js (''.'' @ e)" by simp
    with e(1) show "\<exists>i \<le> length s. \<exists>e \<in> set file_extensions.
             length (drop i s) = Suc (length e) \<and> map to_lower (drop i s) = js (''.'' @ e)" by blast
  qed
  finally show ?thesis .
qed

lemma m_opt_lit:
  assumes "w \<noteq> []"
  shows "m (rx_opt (lit w)) k (b, r) \<noteq> None \<longleftrightarrow>
           (starts_with_ci r (js w) \<and> k (rev (take (length w) r) @ b, drop (length w) r) \<noteq> None)
           \<or> k (b, r) \<noteq> None"
proof (cases "starts_with_ci r (js w)")
  case False
  then show ?thesis by (simp add: m_opt m_lit_starts)
next
  case True
  then have "length w \<le> length r" by (simp add: starts_with_ci_def length_js)
  with assms have "length (drop (length w) r) \<noteq> length r" by (cases w) auto
  with True show ?thesis by (auto simp: m_opt m_lit_starts split: option.splits)
qed

lemma m_prefix_opt:
  assumes "w2 \<noteq> []"
  shows "m (seqs [Bol, lit w1, rx_opt (lit w2), lit w3]) Some ([], s) \<noteq> None \<longleftrightarrow>
           starts_with_ci s (js (w1 @ w3)) \<or> starts_with_ci s (js (w1 @ w2 @ w3))"
proof -
  let ?K = "m (Seq (lit w3) Eps) Some"
  have K: "?K (b, r) \<noteq> None \<longleftrightarrow> starts_with_ci r (js w3)" for b r
    by (simp add: m_lit_starts)
  have "m (seqs [Bol, lit w1, rx_opt (lit w2), lit w3]) Some ([], s)
          = (if starts_with_ci s (js w1)
             then m (rx_opt (lit w2)) ?K (rev (take (length w1) s) @ [], drop (length w1) s)
             else None)"
    by (simp only: seqs_Cons seqs_Nil m.simps(3) m_lit_starts m.simps(8)) simp
  then have "m (seqs [Bol, lit w1, rx_opt (lit w2), lit w3]) Some ([], s) \<noteq> None \<longleftrightarrow>
      starts_with_ci s (js w1)
      \<and> (starts_with_ci (drop (length w1) s) (js w2)
           \<and> starts_with_ci (drop (length w2) (drop (length w1) s)) (js w3)
         \<or> starts_with_ci (drop (length w1) s) (js w3))"
    using m_opt_lit [OF assms, of ?K] by (simp only: K) auto
  then show ?thesis
    by (simp only: js_append starts_with_ci_append length_js) auto
qed

lemma http_prefix_iff:
  "test HTTP_PREFIX s \<longleftrightarrow> starts_with_ci s (js ''http://'') \<or> starts_with_ci s (js ''https://'')"
proof -
  have later: "m HTTP_PREFIX Some (rev (take i s) @ [], drop i s) = None" if "0 < i" "i \<le> length s" for i
  proof -
    have "take i s \<noteq> []" using that by (cases s) auto
    then show ?thesis by (simp add: HTTP_PREFIX_def seqs_Cons)
  qed
  have "test HTTP_PREFIX s \<longleftrightarrow> m HTTP_PREFIX Some ([], s) \<noteq> None"
  proof -
    have "(\<forall>i \<le> length s. m HTTP_PREFIX Some (rev (take i s) @ [], drop i s) = None)
            \<longleftrightarrow> m HTTP_PREFIX Some ([], s) = None"
    proof
      assume "\<forall>i \<le> length s. m HTTP_PREFIX Some (rev (take i s) @ [], drop i s) = None"
      from this [rule_format, of 0] show "m HTTP_PREFIX Some ([], s) = None" by simp
    next
      assume z: "m HTTP_PREFIX Some ([], s) = None"
      show "\<forall>i \<le> length s. m HTTP_PREFIX Some (rev (take i s) @ [], drop i s) = None"
      proof (intro allI impI)
        fix i assume "i \<le> length s"
        then show "m HTTP_PREFIX Some (rev (take i s) @ [], drop i s) = None"
          using z later [of i] by (cases "i = 0") simp_all
      qed
    qed
    then show ?thesis by (simp add: test_def scan_None_iff)
  qed
  also have "\<dots> \<longleftrightarrow> starts_with_ci s (js (''http'' @ ''://'')) \<or> starts_with_ci s (js (''http'' @ ''s'' @ ''://''))"
    unfolding HTTP_PREFIX_def by (rule m_prefix_opt) simp
  finally show ?thesis by simp
qed

lemma anchors_linkifyParts:
  "anchors_at 0 (linkifyParts P t)
     = map (\<lambda>(i, mu). (i, the (sanitizeUrl P mu), mu))
         (filter (\<lambda>(i, mu). accepted P mu) (candidates t 0))"
  unfolding linkifyParts_def by (rule linkify_parts_anchors) simp

lemma anchor_sanitized:
  assumes "(off, h, l) \<in> set (anchors_at 0 (linkifyParts P t))"
  shows "(off, l) \<in> set (candidates t 0) \<and> accepted P l \<and> sanitizeUrl P l = Some h"
proof -
  from assms have "(off, l) \<in> set (candidates t 0)" "accepted P l" "h = the (sanitizeUrl P l)"
    by (auto simp: anchors_linkifyParts)
  then show ?thesis by (auto simp: accepted_def split: option.splits)
qed


section \<open>What the tokenizer makes of the markup\<close>





































section \<open>The text survives\<close>



section \<open>Schemes other than http and https\<close>





section \<open>When the sanitizer accepts\<close>

text \<open>
  C3.  \<open>sanitizeUrl\<close> returns a URL exactly when the input, with \<open>https://\<close> prepended
  unless it starts with \<open>http://\<close> or \<open>https://\<close> (case ignored), parses as a URL whose
  scheme is http or https and whose lower-cased hostname either has its last
  dot-separated label in \<open>VALID_TLDS\<close> or splits into at least two labels; what it then
  returns is the \<open>href\<close> of that URL.  In every other case it returns null.
\<close>

theorem sanitizeUrl_accepts_iff:
  "(sanitizeUrl P s \<noteq> None \<longleftrightarrow>
      (\<exists>u. P (if starts_with_ci s (js ''http://'') \<or> starts_with_ci s (js ''https://'') then s
              else js ''https://'' @ s) = Some u
          \<and> protocol u \<in> {js ''http:'', js ''https:''}
          \<and> (last (split_on 0x2E (toLowerCase (hostname u))) \<in> set VALID_TLDS
               \<or> 2 \<le> length (split_on 0x2E (toLowerCase (hostname u))))))
   \<and> (\<forall>h. sanitizeUrl P s = Some h \<longrightarrow>
         map_option href (P (if starts_with_ci s (js ''http://'') \<or> starts_with_ci s (js ''https://'')
                             then s else js ''https://'' @ s)) = Some h)"
  by (simp only: http_prefix_iff [symmetric])
     (auto simp: sanitizeUrl_def Let_def split: option.splits)

theorem sanitizeUrl_accepts_iff_witness:
  "sanitizeUrl URL_std (js ''example.com'') = Some (js ''https://example.com/'')
   \<and> sanitizeUrl URL_std (js ''HTTP://weather.example'') = Some (js ''http://weather.example/'')
   \<and> sanitizeUrl URL_std (js ''localhost'') = None
   \<and> map_option href (URL_std (js ''https://example.com'')) = Some (js ''https://example.com/'')"
proof -
  have s: "sanitizeUrl URL_std (js ''example.com'') = Some (js ''https://example.com/'')"
    "sanitizeUrl URL_std (js ''HTTP://weather.example'') = Some (js ''http://weather.example/'')"
    "sanitizeUrl URL_std (js ''localhost'') = None"
    by code_simp+
  have n: "\<not> (starts_with_ci (js ''example.com'') (js ''http://'')
              \<or> starts_with_ci (js ''example.com'') (js ''https://''))"
    by code_simp
  have ap: "js ''https://'' @ js ''example.com'' = js ''https://example.com''"
    by (simp add: js_def)
  from sanitizeUrl_accepts_iff [of URL_std "js ''example.com''", THEN conjunct2, rule_format, OF s(1)]
  have h: "map_option href (URL_std (js ''https://example.com'')) = Some (js ''https://example.com/'')"
    by (simp only: n if_False ap)
  show ?thesis by (intro conjI s h)
qed

section \<open>File extensions\<close>

text \<open>
  C4, as stated, fails.  In \<open>main.app.js\<close>, a token that ends in \<open>.js\<close>, the regex matches
  \<open>main.app\<close>, which does not end in a listed extension, and a link is made of it.
  \<open>www.notaurl.exe\<close> is a match and becomes a link: \<open>exe\<close> is not a listed extension.
\<close>

theorem file_extension_token_counterexample:
  "linkifyParts URL_std (js ''main.app.js'')
     = [Plain [], Anchor (js ''https://main.app/'') (js ''main.app''), Plain (js ''.js'')]
   \<and> linkifyParts URL_std (js ''www.notaurl.exe'')
     = [Plain [], Anchor (js ''https://www.notaurl.exe/'') (js ''www.notaurl.exe''), Plain []]"
  by code_simp

lemma notaurl_exe: "linkifyParts P (js ''notaurl.exe'') = [Plain (js ''notaurl.exe'')]"
  by code_simp

text \<open>
  C4, amended.  A candidate (a match of the regex in the scan of \<open>linkifyText\<close>) whose text
  ends, case ignored, in a dot and one of the listed extensions yields no link: there is
  no link at its index.  No link has a label that ends so.  The text \<open>notaurl.exe\<close> has
  no link at all, with any URL parser: the regex does not match in it.
\<close>

theorem file_extension_match_skipped:
  "(\<forall>(i, mu) \<in> set (candidates t 0).
       (\<exists>e \<in> set file_extensions. ends_with (toLowerCase mu) (js (''.'' @ e))) \<longrightarrow>
       (\<forall>(off, h, l) \<in> set (anchors_at 0 (linkifyParts P t)). off \<noteq> i))
   \<and> (\<forall>(off, h, l) \<in> set (anchors_at 0 (linkifyParts P t)).
         \<forall>e \<in> set file_extensions. \<not> ends_with (toLowerCase l) (js (''.'' @ e)))
   \<and> linkifyParts P (js ''notaurl.exe'') = [Plain (js ''notaurl.exe'')]"
proof -
  have label: "\<not> isFileExtension l" "(off, l) \<in> set (candidates t 0)"
    if "(off, h, l) \<in> set (anchors_at 0 (linkifyParts P t))" for off h l
    using anchor_sanitized [OF that] by (simp_all add: accepted_def)
  have a: "\<forall>(i, mu) \<in> set (candidates t 0).
       (\<exists>e \<in> set file_extensions. ends_with (toLowerCase mu) (js (''.'' @ e))) \<longrightarrow>
       (\<forall>(off, h, l) \<in> set (anchors_at 0 (linkifyParts P t)). off \<noteq> i)"
  proof (clarify)
    fix i mu e h l
    assume c: "(i, mu) \<in> set (candidates t 0)" and e: "e \<in> set file_extensions"
      "ends_with (toLowerCase mu) (js (''.'' @ e))"
      and an: "(i, h, l) \<in> set (anchors_at 0 (linkifyParts P t))"
    have "(i, l) \<in> set (filter (\<lambda>(j, nu). j = i) (candidates t 0))"
      using label(2) [OF an] by simp
    with candidates_index_once [OF c] have "l = mu" by simp
    with label(1) [OF an] e show False by (auto simp: isFileExtension_iff)
  qed
  have b: "\<forall>(off, h, l) \<in> set (anchors_at 0 (linkifyParts P t)).
         \<forall>e \<in> set file_extensions. \<not> ends_with (toLowerCase l) (js (''.'' @ e))"
    using label(1) by (auto simp: isFileExtension_iff)
  show ?thesis by (intro conjI a b notaurl_exe)
qed

theorem file_extension_match_skipped_witness:
  "candidates (js ''get example.com/app.js or example.com/page'') 0
     = [(4, js ''example.com/app.js''), (26, js ''example.com/page'')]
   \<and> ''js'' \<in> set file_extensions
   \<and> ends_with (toLowerCase (js ''example.com/app.js'')) (js (''.'' @ ''js''))
   \<and> anchors_at 0 (linkifyParts URL_std (js ''get example.com/app.js or example.com/page''))
       = [(26, js ''https://example.com/page'', js ''example.com/page'')]
   \<and> (26::nat) \<noteq> 4
   \<and> \<not> ends_with (toLowerCase (js ''example.com/page'')) (js (''.'' @ ''js''))"
proof -
  let ?t = "js ''get example.com/app.js or example.com/page''"
  have c: "candidates ?t 0 = [(4, js ''example.com/app.js''), (26, js ''example.com/page'')]"
    by code_simp
  have m: "''js'' \<in> set file_extensions"
    by (simp add: file_extensions_def)
  have e: "ends_with (toLowerCase (js ''example.com/app.js'')) (js (''.'' @ ''js''))"
    by code_simp
  have an: "anchors_at 0 (linkifyParts URL_std ?t)
              = [(26, js ''https://example.com/page'', js ''example.com/page'')]"
    by code_simp
  note th = file_extension_match_skipped [of ?t URL_std]
  have mem: "(4, js ''example.com/app.js'') \<in> set (candidates ?t 0)"
    by (simp only: c) simp
  have "\<exists>e \<in> set file_extensions. ends_with (toLowerCase (js ''example.com/app.js'')) (js (''.'' @ e))"
    using m e by (rule bexI [rotated])
  with th [THEN conjunct1, THEN bspec, OF mem]
  have "\<forall>(off, h, l) \<in> set (anchors_at 0 (linkifyParts URL_std ?t)). off \<noteq> 4"
    by simp
  then have n1: "(26::nat) \<noteq> 4"
    by (simp only: an)
  have "\<forall>e \<in> set file_extensions. \<not> ends_with (toLowerCase (js ''example.com/page'')) (js (''.'' @ e))"
    using th [THEN conjunct2, THEN conjunct1] by (simp only: an) simp
  from this [THEN bspec, OF m]
  have n2: "\<not> ends_with (toLowerCase (js ''example.com/page'')) (js (''.'' @ ''js''))" .
  show ?thesis by (intro conjI c m e an n1 n2)
qed

section \<open>Where a match can start and end\<close>





















section \<open>One link for one candidate\<close>


text \<open>
  The \<open>href\<close> is written into the markup as it is, the label escaped.  In \<open>a.com/?a&copy\<close>
  the sanitized URL ends in \<open>&copy\<close>, which an attribute value reads as U+00A9.
\<close>

lemma href_character_reference:
  "sanitizeUrl URL_std (js ''a.com/?a&copy'') = Some (js ''https://a.com/?a&copy'')
   \<and> token_anchors 0 (tokenize Data (linkifyText URL_std initial_settings
         (js ''chrome-extension://abcdefgh/icons/icon16.png'') (js ''a.com/?a&copy'')))
       = [(0, Some (js ''https://a.com/?a'' @ [0xA9]), js ''a.com/?a&copy'')]"
  by code_simp






section \<open>The processed mark\<close>

lemma processTextNode_settings:
  "processTextNode P H icon manager s pg = (n, ns, pg') \<Longrightarrow> pg_settings pg' = pg_settings pg"
  by (auto simp: processTextNode_def Let_def split: if_splits prod.splits)

lemma walk_settings:
  "walk_node P H icon manager inside parent c pg = (n, ns, pg') \<Longrightarrow> pg_settings pg' = pg_settings pg"
  "walk_nodes P H icon manager inside parent cs pg = (n, ns, pg') \<Longrightarrow> pg_settings pg' = pg_settings pg"
proof (induction P H icon manager inside parent c pg and P H icon manager inside parent cs pg
    arbitrary: n ns pg' and n ns pg' rule: walk_node_walk_nodes.induct)
  case (1 P H icon manager inside parent s pg)
  then show ?case
    by (auto split: if_splits dest: processTextNode_settings)
next
  case (2 P H icon manager inside parent tag attrs cs pg)
  then show ?case
    by (auto split: prod.splits)
next
  case (3 P H icon manager inside parent pg)
  then show ?case by simp
next
  case (4 P H icon manager inside parent c cs pg)
  from "4.prems" obtain n1 c' pg1 n2 cs' where
    a: "walk_node P H icon manager inside parent c pg = (n1, c', pg1)"
    and b: "walk_nodes P H icon manager inside parent cs pg1 = (n2, cs', pg')"
    by (auto split: prod.splits)
  from "4.IH"(1) [OF a] "4.IH"(2) [OF refl a [symmetric] refl b] show ?case by simp
qed

lemma hasAttribute_setAttribute:
  "hasAttribute (Element tag (setAttribute name v attrs) cs) name"
proof (cases "map_of attrs name")
  case None
  then show ?thesis by (simp add: hasAttribute_def setAttribute_def map_add_def)
next
  case (Some w)
  then have "name \<in> fst ` set attrs" by (metis domI dom_map_of_conv_image_fst)
  then have "name \<in> fst ` set (map (\<lambda>(k, w). if k = name then (k, v) else (k, w)) attrs)"
    by (force simp: image_iff split: prod.splits)
  then show ?thesis
    using Some by (auto simp: hasAttribute_def setAttribute_def map_of_eq_None_iff)
qed

text \<open>
  C5.  On an element that carries \<open>data-instaclick-processed\<close>, \<open>processElement\<close> returns
  0 and leaves the element and the page as they are, and \<open>LinkProcessor.add\<close> does not queue
  it.  So a second \<open>processElement\<close> on what a first one left, the mark not cleared, creates
  no link and changes nothing.
\<close>

theorem processElement_marked_noop:
  "(hasAttribute element PROCESSED \<longrightarrow>
      processElement P H icon manager inside element pg = (0, element, pg)
      \<and> LinkProcessor_add ident element queue = (queue, False))
   \<and> (\<forall>n e' pg'. processElement P H icon manager inside element pg = (n, e', pg') \<longrightarrow>
         processElement P H icon manager inside e' pg' = (0, e', pg'))"
proof (intro conjI impI allI)
  assume "hasAttribute element PROCESSED"
  then show "processElement P H icon manager inside element pg = (0, element, pg)"
    by (cases element) (simp_all add: processElement_def)
next
  assume "hasAttribute element PROCESSED"
  then show "LinkProcessor_add ident element queue = (queue, False)"
    by (simp add: LinkProcessor_add_def)
next
  fix n e' pg'
  assume first: "processElement P H icon manager inside element pg = (n, e', pg')"
  show "processElement P H icon manager inside e' pg' = (0, e', pg')"
  proof (cases element)
    case (TextNode s)
    with first show ?thesis by (auto simp: processElement_def)
  next
    case (Element tag attrs cs)
    show ?thesis
    proof (cases "\<not> enabled (pg_settings pg) \<or> hasAttribute element PROCESSED
                  \<or> tag = js ''A'' \<or> inside \<or> tag = js ''SCRIPT'' \<or> tag = js ''STYLE''")
      case True
      with first Element have "e' = element" "pg' = pg"
        by (auto simp: processElement_def split: if_splits)
      with True Element show ?thesis
        by (auto simp: processElement_def)
    next
      case False
      with first Element obtain cs' where
        w: "walk_nodes P H icon manager False tag cs pg = (n, cs', pg')"
        and e': "e' = Element tag (setAttribute PROCESSED (js ''true'') attrs) cs'"
        by (auto simp: processElement_def split: prod.splits)
      from walk_settings(2) [OF w] False have "enabled (pg_settings pg')" by simp
      moreover have "hasAttribute e' PROCESSED"
        unfolding e' by (rule hasAttribute_setAttribute)
      ultimately show ?thesis
        by (simp add: processElement_def e')
    qed
  qed
qed

theorem processElement_marked_noop_witness:
  "hasAttribute (Element (js ''SPAN'') [(PROCESSED, js ''true'')] [TextNode (js ''a.io'')]) PROCESSED
   \<and> processElement URL_std HTML_std (js ''icon16.png'') True False
        (Element (js ''SPAN'') [(PROCESSED, js ''true'')] [TextNode (js ''a.io'')]) page0
       = (0, Element (js ''SPAN'') [(PROCESSED, js ''true'')] [TextNode (js ''a.io'')], page0)
   \<and> fst (processElement URL_std HTML_std (js ''icon16.png'') True False
        (Element (js ''SPAN'') [] [TextNode (js ''a.io'')]) page0) = 1
   \<and> fst (processElement URL_std HTML_std (js ''icon16.png'') True False
        (fst (snd (processElement URL_std HTML_std (js ''icon16.png'') True False
           (Element (js ''SPAN'') [] [TextNode (js ''a.io'')]) page0)))
        (snd (snd (processElement URL_std HTML_std (js ''icon16.png'') True False
           (Element (js ''SPAN'') [] [TextNode (js ''a.io'')]) page0)))) = 0"
proof -
  let ?m = "Element (js ''SPAN'') [(PROCESSED, js ''true'')] [TextNode (js ''a.io'')]"
  let ?u = "Element (js ''SPAN'') [] [TextNode (js ''a.io'')]"
  have h: "hasAttribute ?m PROCESSED"
    by (simp add: hasAttribute_def)
  have one: "fst (processElement URL_std HTML_std (js ''icon16.png'') True False ?u page0) = 1"
    by code_simp
  note th1 = processElement_marked_noop [of ?m URL_std HTML_std "js ''icon16.png''" True False page0 0 "[]"]
  note th2 = processElement_marked_noop [of ?u URL_std HTML_std "js ''icon16.png''" True False page0 0 "[]"]
  from th1 [THEN conjunct1, rule_format, OF h, THEN conjunct1]
  have a: "processElement URL_std HTML_std (js ''icon16.png'') True False ?m page0 = (0, ?m, page0)" .
  from th2 [THEN conjunct2, rule_format,
      of "fst (processElement URL_std HTML_std (js ''icon16.png'') True False ?u page0)"
         "fst (snd (processElement URL_std HTML_std (js ''icon16.png'') True False ?u page0))"
         "snd (snd (processElement URL_std HTML_std (js ''icon16.png'') True False ?u page0))"]
  have b: "fst (processElement URL_std HTML_std (js ''icon16.png'') True False
        (fst (snd (processElement URL_std HTML_std (js ''icon16.png'') True False ?u page0)))
        (snd (snd (processElement URL_std HTML_std (js ''icon16.png'') True False ?u page0)))) = 0"
    by simp
  show ?thesis by (intro conjI h a one b)
qed

section \<open>The cache\<close>

lemma cacheDuration_ms: "cacheDuration = 1800000"
  by (simp add: cacheDuration_def)

text \<open>
  C6.  An entry stored by \<open>setCache\<close> at time \<open>t_insert\<close> and looked up at a later time
  \<open>t_lookup\<close>: when more than 30 minutes (1800000 ms) have passed, \<open>getFromCache\<close>
  returns null (and drops the entry); otherwise it returns exactly the stored data and
  leaves the cache as it is.
\<close>

theorem getFromCache_ttl:
  assumes "t_insert < t_lookup"
  shows "(t_lookup - t_insert > 30 * 60 * 1000 \<longrightarrow>
            fst (getFromCache t_lookup url (setCache t_insert url d st)) = None
          \<and> cache (snd (getFromCache t_lookup url (setCache t_insert url d st))) url = None)
       \<and> (t_lookup - t_insert \<le> 30 * 60 * 1000 \<longrightarrow>
            getFromCache t_lookup url (setCache t_insert url d st)
              = (Some d, setCache t_insert url d st))"
  by (simp add: getFromCache_def setCache_def cacheDuration_def)

section \<open>Hovering one link after another\<close>

text \<open>
  C7.  \<open>show\<close> is called for URL A and then for a different URL B (both non-empty: an
  empty URL makes \<open>show\<close> return at once).  When the fetch for A is fulfilled afterwards,
  its handler does nothing but finish: nothing is rendered, cached or marked, because the
  current URL is B.  When the fetch for B is fulfilled, B's data is what the card shows.
\<close>

theorem stale_response_discarded:
  assumes "A \<noteq> B" and "B \<noteq> []"
  shows "show_resolved t3 A dA (show_call t2 l2 B (show_call t1 l1 A st))
           = finish_request A (show_call t2 l2 B (show_call t1 l1 A st))
       \<and> card (show_resolved t3 A dA (show_call t2 l2 B (show_call t1 l1 A st)))
           = card (show_call t2 l2 B (show_call t1 l1 A st))
       \<and> card (show_call t2 l2 B (show_call t1 l1 A st)) \<noteq> None
       \<and> card (show_resolved t4 B dB (show_resolved t3 A dA (show_call t2 l2 B (show_call t1 l1 A st))))
           = Some (rendered dB)"
proof -
  let ?st2 = "show_call t2 l2 B (show_call t1 l1 A st)"
  have cur: "currentUrl ?st2 = Some B"
    using assms(2)
    by (simp add: show_call_def [of t2] Let_def getFromCache_def createPreviewElement_def
        abort_def renderPreview_def showLoading_def fetchPreviewData_def
        split: option.splits prod.splits)
  have card2: "card ?st2 \<noteq> None"
    using assms(2)
    by (simp add: show_call_def [of t2] Let_def getFromCache_def createPreviewElement_def
        abort_def renderPreview_def showLoading_def fetchPreviewData_def
        split: option.splits prod.splits)
  have stale: "show_resolved t3 A dA ?st2 = finish_request A ?st2"
    using cur assms(1) by (simp add: show_resolved_def finish_request_def Let_def)
  have fresh: "card (show_resolved t4 B dB (finish_request A ?st2)) = Some (rendered dB)"
    using cur
    by (simp add: show_resolved_def finish_request_def Let_def renderPreview_def
        setCache_def markDeadLink_def)
  show ?thesis
    using stale fresh card2 by (simp add: finish_request_def)
qed

theorem getFromCache_ttl_witness:
  "(0::int) < 1800001 \<and> (0::int) < 1800000
   \<and> fst (getFromCache 1800001 (js ''https://example.com/'')
         (setCache 0 (js ''https://example.com/'') (example_data (js ''https://example.com/'')) new_manager)) = None
   \<and> fst (getFromCache 1800000 (js ''https://example.com/'')
         (setCache 0 (js ''https://example.com/'') (example_data (js ''https://example.com/'')) new_manager))
       = Some (example_data (js ''https://example.com/''))"
  using getFromCache_ttl [of 0 1800001 "js ''https://example.com/''"
          "example_data (js ''https://example.com/'')" new_manager]
        getFromCache_ttl [of 0 1800000 "js ''https://example.com/''"
          "example_data (js ''https://example.com/'')" new_manager]
  by simp

theorem stale_response_discarded_witness:
  "js ''https://a.example.com/'' \<noteq> js ''https://b.example.com/''
   \<and> js ''https://b.example.com/'' \<noteq> []
   \<and> card (show_resolved 30 (js ''https://a.example.com/'') (example_data (js ''https://a.example.com/''))
         (show_call 20 2 (js ''https://b.example.com/'') (show_call 10 1 (js ''https://a.example.com/'') new_manager)))
       = Some Loading
   \<and> card (show_resolved 40 (js ''https://b.example.com/'') (example_data (js ''https://b.example.com/''))
         (show_resolved 30 (js ''https://a.example.com/'') (example_data (js ''https://a.example.com/''))
           (show_call 20 2 (js ''https://b.example.com/'') (show_call 10 1 (js ''https://a.example.com/'') new_manager))))
       = Some (Content (example_data (js ''https://b.example.com/'')))"
proof -
  have ne: "js ''https://a.example.com/'' \<noteq> js ''https://b.example.com/''"
    by (simp add: js_def)
  have nn: "js ''https://b.example.com/'' \<noteq> []"
    by (simp add: js_def)
  have ld: "card (show_call 20 2 (js ''https://b.example.com/'')
              (show_call 10 1 (js ''https://a.example.com/'') new_manager)) = Some Loading"
    using ne nn
    by (simp add: show_call_def Let_def getFromCache_def createPreviewElement_def abort_def
        showLoading_def fetchPreviewData_def new_manager_def)
  have rd: "rendered (example_data (js ''https://b.example.com/''))
              = Content (example_data (js ''https://b.example.com/''))"
    by (simp add: rendered_def example_data_def)
  note th = stale_response_discarded [OF ne nn, of 30 "example_data (js ''https://a.example.com/'')"
        20 2 10 1 new_manager 40 "example_data (js ''https://b.example.com/'')"]
  show ?thesis
    using th [THEN conjunct2, THEN conjunct1]
      th [THEN conjunct2, THEN conjunct2, THEN conjunct2] ne nn ld rd
    by simp
qed

section \<open>Cancelling the fetch\<close>

text \<open>
  C8.  \<open>show\<close> for A on a fresh manager starts a request; \<open>show\<close> for B then calls
  \<open>abort()\<close> on the controller created for A (handle 0).  The request for A is still in
  flight afterwards: it was started without the controller's signal.
\<close>

theorem show_leaves_previous_fetch_in_flight:
  "inflight (show_call 10 1 (js ''https://a.example.com/'') new_manager)
     = [\<lparr>req_url = js ''https://a.example.com/'', req_signal = None\<rparr>]
   \<and> aborted (show_call 20 2 (js ''https://b.example.com/'')
        (show_call 10 1 (js ''https://a.example.com/'') new_manager)) = [0]
   \<and> inflight (show_call 20 2 (js ''https://b.example.com/'')
        (show_call 10 1 (js ''https://a.example.com/'') new_manager))
     = [\<lparr>req_url = js ''https://a.example.com/'', req_signal = None\<rparr>,
        \<lparr>req_url = js ''https://b.example.com/'', req_signal = None\<rparr>]"
  by (simp add: show_call_def Let_def getFromCache_def createPreviewElement_def abort_def
      showLoading_def fetchPreviewData_def new_manager_def js_def)

section \<open>Tracking a click\<close>

text \<open>
  C9.  A \<open>TRACK_CLICK\<close> request with a non-empty URL that parses.  When \<open>trackHistory\<close>
  is off in the stored settings (the defaults, if none are stored), the handler answers
  success with \<open>tracked: false\<close> and leaves the whole store, history and stats, as it is.
  When it is on, the handler answers success, and the stored history becomes the new
  entry (the URL, its hostname without a leading \<open>www.\<close>, the timestamp, the id made of
  the time and the random string) in front of the old history, cut to 100 entries.
\<close>

theorem trackLinkClick_history:
  assumes "url \<noteq> []" and "P url = Some parsed"
  shows "(\<not> ws_trackHistory (case stored_settings st of None \<Rightarrow> DEFAULT_SETTINGS | Some s \<Rightarrow> s) \<longrightarrow>
            trackLinkClick P t1 t2 random url st = (Tracked False, st))
       \<and> (ws_trackHistory (case stored_settings st of None \<Rightarrow> DEFAULT_SETTINGS | Some s \<Rightarrow> s) \<longrightarrow>
            fst (trackLinkClick P t1 t2 random url st) = Tracked True
            \<and> stored_clickHistory (snd (trackLinkClick P t1 t2 random url st))
                = Some (take 100
                    (\<lparr>he_url = url, he_hostname = strip_www (hostname parsed), he_timestamp = t1,
                      he_id = number_string t2 @ js ''-'' @ random\<rparr>
                     # (case stored_clickHistory st of None \<Rightarrow> [] | Some h \<Rightarrow> h))))"
  using assms by (simp add: trackLinkClick_def Let_def)

theorem trackLinkClick_history_witness:
  "js ''https://www.example.com/page'' \<noteq> []
   \<and> map_option hostname (URL_std (js ''https://www.example.com/page'')) = Some (js ''www.example.com'')
   \<and> trackLinkClick URL_std 7 8 (js ''k3j9x0q2m'') (js ''https://www.example.com/page'') example_store
       = (Tracked False, example_store)
   \<and> stored_clickHistory (snd (trackLinkClick URL_std 7 8 (js ''k3j9x0q2m'') (js ''https://www.example.com/page'')
         (example_store\<lparr>stored_settings := Some DEFAULT_SETTINGS\<rparr>)))
       = Some [\<lparr>he_url = js ''https://www.example.com/page'', he_hostname = js ''example.com'',
                he_timestamp = 7, he_id = js ''8-k3j9x0q2m''\<rparr>,
               \<lparr>he_url = js ''https://a.example.com/'', he_hostname = js ''a.example.com'',
                he_timestamp = 5, he_id = js ''5-abcdefghi''\<rparr>]"
proof -
  let ?u = "js ''https://www.example.com/page''"
  have ne: "?u \<noteq> []" by (simp add: js_def)
  obtain parsed where p: "URL_std ?u = Some parsed" and h: "hostname parsed = js ''www.example.com''"
  proof -
    have "map_option hostname (URL_std ?u) = Some (js ''www.example.com'')" by code_simp
    then show ?thesis using that by auto
  qed
  have hn: "map_option hostname (URL_std ?u) = Some (js ''www.example.com'')"
    using p h by simp
  have off: "\<not> ws_trackHistory (case stored_settings example_store of None \<Rightarrow> DEFAULT_SETTINGS | Some s \<Rightarrow> s)"
    by (simp add: example_store_def)
  have on: "ws_trackHistory (case stored_settings (example_store\<lparr>stored_settings := Some DEFAULT_SETTINGS\<rparr>)
              of None \<Rightarrow> DEFAULT_SETTINGS | Some s \<Rightarrow> s)"
    by (simp add: DEFAULT_SETTINGS_def)
  have sw: "strip_www (js ''www.example.com'') = js ''example.com''"
    by (simp add: strip_www_def js_def)
  have id: "number_string 8 @ js ''-'' @ js ''k3j9x0q2m'' = js ''8-k3j9x0q2m''"
    by (simp add: number_string_def decimal.simps js_def)
  from trackLinkClick_history [of ?u URL_std parsed example_store 7 8 "js ''k3j9x0q2m''", OF ne p,
      THEN conjunct1, rule_format, OF off]
  have a: "trackLinkClick URL_std 7 8 (js ''k3j9x0q2m'') ?u example_store = (Tracked False, example_store)" .
  from trackLinkClick_history [of ?u URL_std parsed
      "example_store\<lparr>stored_settings := Some DEFAULT_SETTINGS\<rparr>" 7 8 "js ''k3j9x0q2m''", OF ne p,
      THEN conjunct2, rule_format, OF on, THEN conjunct2]
  have b: "stored_clickHistory (snd (trackLinkClick URL_std 7 8 (js ''k3j9x0q2m'') ?u
         (example_store\<lparr>stored_settings := Some DEFAULT_SETTINGS\<rparr>)))
       = Some [\<lparr>he_url = ?u, he_hostname = js ''example.com'',
                he_timestamp = 7, he_id = js ''8-k3j9x0q2m''\<rparr>,
               \<lparr>he_url = js ''https://a.example.com/'', he_hostname = js ''a.example.com'',
                he_timestamp = 5, he_id = js ''5-abcdefghi''\<rparr>]"
    by (simp only: h sw id) (simp add: example_store_def)
  show ?thesis by (intro conjI ne hn a b)
qed

end
